theory Spec2Isabelle
  imports Complex_Main "HOL-Library.AList" "HOL-Library.Char_ord"
    "HOL-Library.List_Lexorder" "HOL-Library.Product_Lexorder"
begin

section \<open>Python values: exceptions, dictionaries, lists, ranges\<close>

text \<open>
  The exceptions the modelled code can raise. \<open>KeyError\<close> carries the missing key,
  \<open>ValueError\<close> and \<open>RuntimeError\<close> their argument (for the saturation error of the
  constructive heuristic, the identifier of the patient that could not be placed).
\<close>

datatype py_error =
    KeyError string
  | IndexError
  | ZeroDivisionError
  | ValueError string
  | RuntimeError string

text \<open>Sequencing of computations that may raise: the first exception wins.\<close>

fun rbind :: "py_error + 'a \<Rightarrow> ('a \<Rightarrow> py_error + 'b) \<Rightarrow> py_error + 'b" where
  "rbind (Inl e) f = Inl e"
| "rbind (Inr v) f = f v"

text \<open>
  A \<open>dict\<close> is an association list in insertion order; \<open>d[k]\<close> raises \<open>KeyError\<close> on a
  missing key. \<open>d[k] = v\<close> is \<open>AList.update k v d\<close>: it replaces the value in place when
  the key is present and appends the entry otherwise, as Python does.
\<close>

definition py_lookup :: "(string \<times> 'v) list \<Rightarrow> string \<Rightarrow> py_error + 'v" where
  "py_lookup d k = (case map_of d k of None \<Rightarrow> Inl (KeyError k) | Some v \<Rightarrow> Inr v)"

text \<open>
  \<open>xs[i]\<close> for a list: an index from 0 to \<open>len(xs) - 1\<close> reads that position, an
  index from \<open>-len(xs)\<close> to \<open>-1\<close> reads from the end, anything else raises
  \<open>IndexError\<close>.
\<close>

definition py_index :: "'a list \<Rightarrow> int \<Rightarrow> py_error + 'a" where
  "py_index xs i =
     (if 0 \<le> i \<and> i < int (length xs) then Inr (xs ! nat i)
      else if i < 0 \<and> - int (length xs) \<le> i then Inr (xs ! nat (int (length xs) + i))
      else Inl IndexError)"

text \<open>\<open>range(a, b)\<close> and \<open>range(n)\<close>, empty when \<open>b \<le> a\<close>.\<close>

definition py_range :: "int \<Rightarrow> int \<Rightarrow> int list" where
  "py_range a b = [a..b - 1]"

section \<open>Data model\<close>

text \<open>
  Modelled from the spec: the class \<open>PatientAllocationData\<close> of the module
  \<open>data_parser\<close> is imported by every source file and is not part of the sources; its
  records follow section 3 of the specification (Patient, Ward, Specialization, Global
  weights) and carry exactly the fields the source reads, under the source's names.
  Days, lengths of stay and bed counts are Python integers; durations, theatre time,
  workloads and weights are numbers, modelled as reals.
\<close>

record patient_rec =
  specialization :: string
  earliest :: int
  latest :: int
  los :: int
  surgery_duration :: real
  workload_per_day :: "real list"

record ward_rec =
  bed_capacity :: int
  workload_capacity :: real
  major_specialization :: string
  minor_specializations :: "string list"
  carryover_patients :: "int list"
  carryover_workload :: "real list"

record specialism_rec =
  ot_time :: "real list"
  workload_factor :: real

record pa_data =
  patients :: "(string \<times> patient_rec) list"
  wards :: "(string \<times> ward_rec) list"
  specialisms :: "(string \<times> specialism_rec) list"
  num_days :: int
  weight_overtime :: real
  weight_undertime :: real
  weight_delay :: real

text \<open>
  An allocation is the dictionary \<open>{patient_id: {'ward': ward_name, 'day': day}}\<close>.
\<close>

record assignment =
  ward :: string
  day :: int

type_synonym allocation = "(string \<times> assignment) list"

section \<open>Utilities of \<open>metaheuristics_NEW.py\<close>\<close>

text \<open>\<open>compatible_wards_for_patient\<close>: the wards, in dictionary order, whose major
  specialization is the patient's or whose minor specializations contain it.\<close>

definition compatible_wards_for_patient :: "pa_data \<Rightarrow> patient_rec \<Rightarrow> string list" where
  "compatible_wards_for_patient data p =
     map fst (filter (\<lambda>(wname, w).
        specialization p = major_specialization w
        \<or> specialization p \<in> set (minor_specializations w)) (wards data))"

text \<open>
  \<open>count_beds_used_on_day\<close>: the carryover count of the ward on day \<open>d\<close>, plus one for
  every entry of the allocation in that ward whose stay covers \<open>d\<close>. The patient record
  is looked up only for entries of that ward.
\<close>

fun count_beds_loop ::
  "pa_data \<Rightarrow> string \<Rightarrow> int \<Rightarrow> allocation \<Rightarrow> int \<Rightarrow> py_error + int" where
  "count_beds_loop data ward_name d [] used = Inr used"
| "count_beds_loop data ward_name d ((pid, a) # rest) used =
     (if ward a \<noteq> ward_name then count_beds_loop data ward_name d rest used
      else rbind (py_lookup (patients data) pid) (\<lambda>p.
        count_beds_loop data ward_name d rest
          (if day a \<le> d \<and> d < day a + los p then used + 1 else used)))"

definition count_beds_used_on_day ::
  "pa_data \<Rightarrow> allocation \<Rightarrow> string \<Rightarrow> int \<Rightarrow> py_error + int" where
  "count_beds_used_on_day data allocation ward_name d =
     rbind (py_lookup (wards data) ward_name) (\<lambda>w.
     rbind (py_index (carryover_patients w) d) (\<lambda>used0.
       count_beds_loop data ward_name d allocation used0))"

text \<open>
  \<open>feasible_after_change_beds\<close>: applies the optional change to a copy of the
  allocation, then scans wards and days and returns \<open>False\<close> at the first ward-day whose
  occupancy exceeds the bed capacity.
\<close>

fun feasible_days ::
  "pa_data \<Rightarrow> allocation \<Rightarrow> string \<Rightarrow> int \<Rightarrow> int list \<Rightarrow> py_error + bool" where
  "feasible_days data allocation wname cap [] = Inr True"
| "feasible_days data allocation wname cap (d # ds) =
     rbind (count_beds_used_on_day data allocation wname d) (\<lambda>used.
       if used > cap then Inr False
       else feasible_days data allocation wname cap ds)"

fun feasible_wards ::
  "pa_data \<Rightarrow> allocation \<Rightarrow> (string \<times> ward_rec) list \<Rightarrow> py_error + bool" where
  "feasible_wards data allocation [] = Inr True"
| "feasible_wards data allocation ((wname, w) # ws) =
     rbind (feasible_days data allocation wname (bed_capacity w)
              (py_range 0 (num_days data))) (\<lambda>ok.
       if ok then feasible_wards data allocation ws else Inr False)"

definition feasible_after_change_beds ::
  "pa_data \<Rightarrow> allocation \<Rightarrow> (string \<times> string \<times> int) option \<Rightarrow> py_error + bool" where
  "feasible_after_change_beds data allocation change =
     feasible_wards data
       (case change of
          None \<Rightarrow> allocation
        | Some (pid, new_ward, new_day) \<Rightarrow>
            AList.update pid \<lparr>ward = new_ward, day = new_day\<rparr> allocation)
       (wards data)"

text \<open>\<open>bed_capacity_violations\<close>: the same scan, accumulating the excess in \<open>vio\<close>.\<close>

fun violations_days ::
  "pa_data \<Rightarrow> allocation \<Rightarrow> string \<Rightarrow> int \<Rightarrow> int list \<Rightarrow> int \<Rightarrow> py_error + int" where
  "violations_days data allocation wname cap [] vio = Inr vio"
| "violations_days data allocation wname cap (d # ds) vio =
     rbind (count_beds_used_on_day data allocation wname d) (\<lambda>used.
       violations_days data allocation wname cap ds
         (if used > cap then vio + (used - cap) else vio))"

fun violations_wards ::
  "pa_data \<Rightarrow> allocation \<Rightarrow> (string \<times> ward_rec) list \<Rightarrow> int \<Rightarrow> py_error + int" where
  "violations_wards data allocation [] vio = Inr vio"
| "violations_wards data allocation ((wname, w) # ws) vio =
     rbind (violations_days data allocation wname (bed_capacity w)
              (py_range 0 (num_days data)) vio) (\<lambda>vio'.
       violations_wards data allocation ws vio')"

definition bed_capacity_violations :: "pa_data \<Rightarrow> allocation \<Rightarrow> py_error + int" where
  "bed_capacity_violations data allocation =
     violations_wards data allocation (wards data) 0"

text \<open>\<open>compute_ot_used_by_spec_day\<close>: theatre time used by a specialization on a day.\<close>

fun ot_used_loop :: "pa_data \<Rightarrow> allocation \<Rightarrow> string \<Rightarrow> int \<Rightarrow> real \<Rightarrow> py_error + real" where
  "ot_used_loop data [] spec d tot = Inr tot"
| "ot_used_loop data ((pid, a) # rest) spec d tot =
     rbind (py_lookup (patients data) pid) (\<lambda>p.
       ot_used_loop data rest spec d
         (if specialization p = spec \<and> day a = d then tot + surgery_duration p
          else tot))"

definition compute_ot_used_by_spec_day ::
  "pa_data \<Rightarrow> allocation \<Rightarrow> string \<Rightarrow> int \<Rightarrow> py_error + real" where
  "compute_ot_used_by_spec_day data allocation spec d =
     ot_used_loop data allocation spec d 0"

text \<open>
  \<open>compute_workload_normalized_and_z\<close>. The innermost loop adds, for every resident
  patient of the ward, the workload of its day of stay when that index is inside the
  profile, scaled by the specialization's factor when the specialization is minor for
  the ward. The result is the dictionary \<open>x\<close> keyed by (ward, day) and the maximum \<open>z\<close>.
\<close>

fun workload_patients ::
  "pa_data \<Rightarrow> string \<Rightarrow> ward_rec \<Rightarrow> int \<Rightarrow> allocation \<Rightarrow> real \<Rightarrow> py_error + real" where
  "workload_patients data wname w d [] total_w = Inr total_w"
| "workload_patients data wname w d ((pid, a) # rest) total_w =
     (if ward a \<noteq> wname then workload_patients data wname w d rest total_w
      else rbind (py_lookup (patients data) pid) (\<lambda>p.
        if day a \<le> d \<and> d < day a + los p then
          (let day_of_stay = d - day a in
           if 0 \<le> day_of_stay \<and> day_of_stay < int (length (workload_per_day p)) then
             rbind (py_index (workload_per_day p) day_of_stay) (\<lambda>base.
               if specialization p \<noteq> major_specialization w
                  \<and> specialization p \<in> set (minor_specializations w)
               then rbind (py_lookup (specialisms data) (specialization p)) (\<lambda>s.
                      workload_patients data wname w d rest
                        (total_w + base * workload_factor s))
               else workload_patients data wname w d rest (total_w + base))
           else workload_patients data wname w d rest total_w)
        else workload_patients data wname w d rest total_w))"

type_synonym x_map = "((string \<times> int) \<times> real) list"

fun workload_days ::
  "pa_data \<Rightarrow> allocation \<Rightarrow> string \<Rightarrow> ward_rec \<Rightarrow> int list \<Rightarrow> x_map \<times> real
     \<Rightarrow> py_error + (x_map \<times> real)" where
  "workload_days data allocation wname w [] xz = Inr xz"
| "workload_days data allocation wname w (d # ds) (x, z) =
     rbind (py_index (carryover_workload w) d) (\<lambda>total_w0.
     rbind (workload_patients data wname w d allocation total_w0) (\<lambda>total_w.
       (let v = (if workload_capacity w > 0 then total_w / workload_capacity w else 0)
        in workload_days data allocation wname w ds
             (AList.update (wname, d) v x, max z v))))"

fun workload_wards ::
  "pa_data \<Rightarrow> allocation \<Rightarrow> (string \<times> ward_rec) list \<Rightarrow> x_map \<times> real
     \<Rightarrow> py_error + (x_map \<times> real)" where
  "workload_wards data allocation [] xz = Inr xz"
| "workload_wards data allocation ((wname, w) # ws) xz =
     rbind (workload_days data allocation wname w (py_range 0 (num_days data)) xz)
       (\<lambda>xz'. workload_wards data allocation ws xz')"

definition compute_workload_normalized_and_z ::
  "pa_data \<Rightarrow> allocation \<Rightarrow> py_error + (x_map \<times> real)" where
  "compute_workload_normalized_and_z data allocation =
     workload_wards data allocation (wards data) ([], 0)"

text \<open>
  \<open>compute_objective_components\<close>: total delay, total overtime and undertime with the
  dictionary \<open>ot_used_map\<close> keyed by (specialization, day), then the workload part.
\<close>

fun delays_loop :: "pa_data \<Rightarrow> allocation \<Rightarrow> real \<Rightarrow> py_error + real" where
  "delays_loop data [] delays = Inr delays"
| "delays_loop data ((pid, a) # rest) delays =
     rbind (py_lookup (patients data) pid) (\<lambda>p.
       delays_loop data rest (delays + real_of_int (max 0 (day a - earliest p))))"

type_synonym ot_map = "((string \<times> int) \<times> (real \<times> real \<times> real \<times> real)) list"

fun ot_days ::
  "pa_data \<Rightarrow> allocation \<Rightarrow> string \<Rightarrow> int list \<Rightarrow> real \<times> real \<times> ot_map
     \<Rightarrow> py_error + (real \<times> real \<times> ot_map)" where
  "ot_days data allocation spec [] acc = Inr acc"
| "ot_days data allocation spec (d # ds) (total_overtime, total_undertime, m) =
     rbind (compute_ot_used_by_spec_day data allocation spec d) (\<lambda>used.
     rbind (py_lookup (specialisms data) spec) (\<lambda>s.
     rbind (py_index (ot_time s) d) (\<lambda>avail.
       if used > avail then
         ot_days data allocation spec ds
           (total_overtime + (used - avail), total_undertime,
            AList.update (spec, d) (used, avail, used - avail, 0) m)
       else
         ot_days data allocation spec ds
           (total_overtime, total_undertime + (avail - used),
            AList.update (spec, d) (used, avail, 0, avail - used) m))))"

fun ot_specs ::
  "pa_data \<Rightarrow> allocation \<Rightarrow> string list \<Rightarrow> real \<times> real \<times> ot_map
     \<Rightarrow> py_error + (real \<times> real \<times> ot_map)" where
  "ot_specs data allocation [] acc = Inr acc"
| "ot_specs data allocation (spec # specs) acc =
     rbind (ot_days data allocation spec (py_range 0 (num_days data)) acc)
       (\<lambda>acc'. ot_specs data allocation specs acc')"

definition compute_objective_components ::
  "pa_data \<Rightarrow> allocation
     \<Rightarrow> py_error + (real \<times> real \<times> real \<times> real \<times> x_map \<times> ot_map)" where
  "compute_objective_components data allocation =
     rbind (delays_loop data allocation 0) (\<lambda>delays.
     rbind (ot_specs data allocation (map fst (specialisms data)) (0, 0, []))
       (\<lambda>(total_overtime, total_undertime, ot_used_map).
     rbind (compute_workload_normalized_and_z data allocation) (\<lambda>(xm, z).
       Inr (delays, total_overtime, total_undertime, z, xm, ot_used_map))))"

definition objective_value ::
  "pa_data \<Rightarrow> allocation \<Rightarrow> real \<Rightarrow> real \<Rightarrow> py_error + real" where
  "objective_value data allocation lambda1 lambda2 =
     rbind (compute_objective_components data allocation)
       (\<lambda>(delays, ovt, undt, z, xm, om).
          (let f1 = weight_overtime data * ovt + weight_undertime data * undt
                    + weight_delay data * delays;
               f2 = z
           in Inr (lambda1 * f1 + lambda2 * f2)))"

definition objective_value_penalized ::
  "pa_data \<Rightarrow> allocation \<Rightarrow> real \<Rightarrow> real \<Rightarrow> real \<Rightarrow> py_error + real" where
  "objective_value_penalized data allocation lambda1 lambda2 penalty_weight =
     rbind (objective_value data allocation lambda1 lambda2) (\<lambda>f_obj.
     rbind (bed_capacity_violations data allocation) (\<lambda>violations.
       Inr (f_obj + penalty_weight * real_of_int violations)))"

section \<open>Well-formed data and total allocations\<close>

text \<open>
  The parsed instance is well formed when its dictionaries have distinct keys, every
  per-day list of a ward or specialization covers the planning horizon, and every minor
  specialization of a ward has a specialization record. An allocation is total when it
  maps every patient, and only patients, to one (ward, day) pair; nothing is asked of the
  pair itself.
\<close>

definition wf_data :: "pa_data \<Rightarrow> bool" where
  "wf_data data \<longleftrightarrow>
     distinct (map fst (patients data)) \<and>
     distinct (map fst (wards data)) \<and>
     distinct (map fst (specialisms data)) \<and>
     list_all (\<lambda>(wname, w).
        num_days data \<le> int (length (carryover_patients w)) \<and>
        num_days data \<le> int (length (carryover_workload w)) \<and>
        list_all (\<lambda>m. m \<in> set (map fst (specialisms data))) (minor_specializations w))
       (wards data) \<and>
     list_all (\<lambda>(sname, s). num_days data \<le> int (length (ot_time s))) (specialisms data)"


definition carry_ok :: "pa_data \<Rightarrow> bool" where
  "carry_ok data \<longleftrightarrow> distinct (map fst (wards data)) \<and>
     list_all (\<lambda>(wname, w). num_days data \<le> int (length (carryover_patients w))) (wards data)"

text \<open>
  The specification's words for the bed-capacity quantities: the occupancy of a ward-day
  is the ward's carryover count plus the number of patients whose stay interval
  [day, day + length-of-stay) covers the day; \<open>bed_violations\<close> is the sum over all
  ward-days of (occupancy - capacity) where positive.
\<close>

definition stay_covers :: "pa_data \<Rightarrow> string \<Rightarrow> int \<Rightarrow> string \<times> assignment \<Rightarrow> bool" where
  "stay_covers data wname d = (\<lambda>(pid, a).
     ward a = wname \<and>
     (case map_of (patients data) pid of
        Some p \<Rightarrow> day a \<le> d \<and> d < day a + los p
      | None \<Rightarrow> False))"

definition occupancy :: "pa_data \<Rightarrow> allocation \<Rightarrow> string \<Rightarrow> ward_rec \<Rightarrow> int \<Rightarrow> int" where
  "occupancy data allocation wname w d =
     carryover_patients w ! nat d + int (length (filter (stay_covers data wname d) allocation))"


section \<open>A small instance\<close>

text \<open>
  Three patients, two wards, two specializations, three days. Ward \<open>B\<close> has workload
  capacity 0 and patient \<open>p3\<close> an empty workload profile. \<open>demo_crowded\<close> puts two
  patients into the single bed of ward \<open>A\<close> on days 0 and 1; \<open>demo_outside\<close> places every
  patient outside its window, two of them past the horizon.
\<close>

definition demo_data :: pa_data where
  "demo_data = \<lparr>
     patients =
       [(''p1'', \<lparr>specialization = ''card'', earliest = 0, latest = 1, los = 2,
                 surgery_duration = 60, workload_per_day = [1, 2]\<rparr>),
        (''p2'', \<lparr>specialization = ''card'', earliest = 0, latest = 0, los = 1,
                 surgery_duration = 30, workload_per_day = [1]\<rparr>),
        (''p3'', \<lparr>specialization = ''orth'', earliest = 0, latest = 2, los = 1,
                 surgery_duration = 45, workload_per_day = []\<rparr>)],
     wards =
       [(''A'', \<lparr>bed_capacity = 1, workload_capacity = 4, major_specialization = ''card'',
                minor_specializations = [''orth''], carryover_patients = [0, 0, 0],
                carryover_workload = [1, 1, 1]\<rparr>),
        (''B'', \<lparr>bed_capacity = 2, workload_capacity = 0, major_specialization = ''orth'',
                minor_specializations = [], carryover_patients = [1, 0, 0],
                carryover_workload = [0, 0, 0]\<rparr>)],
     specialisms =
       [(''card'', \<lparr>ot_time = [60, 60, 60], workload_factor = 1\<rparr>),
        (''orth'', \<lparr>ot_time = [30, 30, 30], workload_factor = 1 / 2\<rparr>)],
     num_days = 3,
     weight_overtime = 1, weight_undertime = 1, weight_delay = 1\<rparr>"

definition demo_crowded :: allocation where
  "demo_crowded = [(''p1'', \<lparr>ward = ''A'', day = 0\<rparr>),
                   (''p2'', \<lparr>ward = ''A'', day = 0\<rparr>),
                   (''p3'', \<lparr>ward = ''A'', day = 1\<rparr>)]"


section \<open>Randomness, the clock and the object store\<close>

text \<open>
  The search procedures draw random numbers and read the wall clock. Both are inputs of
  the model: a \<open>world\<close> holds the stream of raw random draws still to come and the stream
  of readings \<open>time.time()\<close> will return. Every function that draws or reads the clock
  takes the world and returns the rest of it, so a run is a function of the world and
  a property proved for every world holds for every run.
\<close>

record world =
  rand :: "nat \<Rightarrow> nat"
  clock :: "nat \<Rightarrow> real"

definition next_rand :: "world \<Rightarrow> nat \<times> world" where
  "next_rand w = (rand w 0, w\<lparr>rand := \<lambda>i. rand w (Suc i)\<rparr>)"

definition time_time :: "world \<Rightarrow> real \<times> world" where
  "time_time w = (clock w 0, w\<lparr>clock := \<lambda>i. clock w (Suc i)\<rparr>)"

text \<open>A uniform index below \<open>n\<close>, for \<open>n > 0\<close>.\<close>

definition randbelow :: "nat \<Rightarrow> world \<Rightarrow> nat \<times> world" where
  "randbelow n w = (case next_rand w of (r, w') \<Rightarrow> (r mod n, w'))"

text \<open>\<open>random.random()\<close>: a multiple of \<open>2^-53\<close> in [0, 1).\<close>

definition random_random :: "world \<Rightarrow> real \<times> world" where
  "random_random w =
     (case next_rand w of (r, w') \<Rightarrow> (real (r mod 2 ^ 53) / 2 ^ 53, w'))"

text \<open>\<open>random.choice(seq)\<close> raises \<open>IndexError\<close> on an empty sequence.\<close>

definition random_choice :: "'a list \<Rightarrow> world \<Rightarrow> py_error + ('a \<times> world)" where
  "random_choice xs w =
     (if xs = [] then Inl IndexError
      else case randbelow (length xs) w of (j, w') \<Rightarrow> Inr (xs ! j, w'))"

text \<open>\<open>random.randint(a, b)\<close>, both ends included; \<open>ValueError\<close> when \<open>a > b\<close>.\<close>

definition random_randint :: "int \<Rightarrow> int \<Rightarrow> world \<Rightarrow> py_error + (int \<times> world)" where
  "random_randint a b w =
     (if a > b then Inl (ValueError ''empty range for randrange()'')
      else case randbelow (nat (b - a + 1)) w of (j, w') \<Rightarrow> Inr (a + int j, w'))"

text \<open>
  \<open>random.sample(population, k)\<close>: \<open>k\<close> distinct positions of the population, drawn one
  after the other from a shrinking pool (the drawn position is refilled with the pool's
  last element). \<open>ValueError\<close> when \<open>k\<close> is negative or exceeds the population.
\<close>

fun sample_loop :: "'a list \<Rightarrow> nat \<Rightarrow> world \<Rightarrow> 'a list \<times> world" where
  "sample_loop pool 0 w = ([], w)"
| "sample_loop pool (Suc k) w =
     (case randbelow (length pool) w of (j, w1) \<Rightarrow>
        (case sample_loop (butlast (pool[j := last pool])) k w1 of (rest, w2) \<Rightarrow>
           (pool ! j # rest, w2)))"

definition random_sample :: "'a list \<Rightarrow> int \<Rightarrow> world \<Rightarrow> py_error + ('a list \<times> world)" where
  "random_sample population k w =
     (if k < 0 \<or> int (length population) < k
      then Inl (ValueError ''Sample larger than population or is negative'')
      else Inr (sample_loop population (nat k) w))"

text \<open>
  \<open>random.shuffle(x)\<close>: for \<open>i\<close> from \<open>len(x) - 1\<close> down to 1, swap position \<open>i\<close> with a
  position drawn from \<open>0..i\<close>.
\<close>

fun shuffle_loop :: "nat \<Rightarrow> 'a list \<Rightarrow> world \<Rightarrow> 'a list \<times> world" where
  "shuffle_loop 0 xs w = (xs, w)"
| "shuffle_loop (Suc i) xs w =
     (case randbelow (Suc (Suc i)) w of (j, w') \<Rightarrow>
        shuffle_loop i (xs[Suc i := xs ! j, j := xs ! Suc i]) w')"

definition random_shuffle :: "'a list \<Rightarrow> world \<Rightarrow> 'a list \<times> world" where
  "random_shuffle xs w = shuffle_loop (length xs - 1) xs w"

text \<open>
  Allocations are mutable dictionaries: the fast local search writes into the object it
  is given, and the best allocation is kept as a \<open>copy.deepcopy\<close>. The store maps object
  references to allocation values; \<open>fresh\<close> is the next unused reference. The inner
  \<open>{'ward', 'day'}\<close> dictionaries are values of their entry: ILS and VNS never share one
  between two allocation objects, they only write into them or replace them.
\<close>

record store =
  cells :: "nat \<Rightarrow> allocation"
  fresh :: nat

definition alloc_new :: "allocation \<Rightarrow> store \<Rightarrow> nat \<times> store" where
  "alloc_new v h = (fresh h, \<lparr>cells = (cells h)(fresh h := v), fresh = Suc (fresh h)\<rparr>)"

definition deepcopy :: "nat \<Rightarrow> store \<Rightarrow> nat \<times> store" where
  "deepcopy r h = alloc_new (cells h r) h"

definition write_cell :: "nat \<Rightarrow> allocation \<Rightarrow> store \<Rightarrow> store" where
  "write_cell r v h = h\<lparr>cells := (cells h)(r := v)\<rparr>"

text \<open>\<open>allocation[pid]['day'] = d\<close> and \<open>allocation[pid]['ward'] = w\<close>: the entry must
  exist (\<open>KeyError\<close> otherwise) and keeps its position.\<close>

definition set_day :: "string \<Rightarrow> int \<Rightarrow> allocation \<Rightarrow> py_error + allocation" where
  "set_day pid d al =
     rbind (py_lookup al pid) (\<lambda>a. Inr (AList.update pid (a\<lparr>day := d\<rparr>) al))"

definition set_ward :: "string \<Rightarrow> string \<Rightarrow> allocation \<Rightarrow> py_error + allocation" where
  "set_ward pid wn al =
     rbind (py_lookup al pid) (\<lambda>a. Inr (AList.update pid (a\<lparr>ward := wn\<rparr>) al))"

text \<open>The tolerance \<open>1e-9\<close> of the improvement tests.\<close>

definition eps :: real where
  "eps = 1 / 10 ^ 9"

section \<open>Fast local search (ILS and VNS)\<close>

text \<open>
  \<open>_local_search_fast\<close> is written twice in the source, once in each class, with the
  same body and different constants: at most 10 rounds, 30 percent of the patients and
  3 days per patient in \<open>IteratedLocalSearch\<close>; 5 rounds, 20 percent and 2 days in
  \<open>VariableNeighborhoodSearch\<close>. The model has the body once, with the constants as
  parameters. It works on the value of the allocation object; the caller writes the
  result back into the object, which is what the in-place writes of the source amount
  to.

  The innermost loop tries the sampled days of one patient: a day equal to the
  patient's day is skipped, a trial whose penalized objective is lower by more than
  \<open>1e-9\<close> is kept and ends the loop, any other trial is undone.
\<close>

fun ls_days ::
  "pa_data \<Rightarrow> real \<Rightarrow> real \<Rightarrow> real \<Rightarrow> string \<Rightarrow> assignment \<Rightarrow> int list \<Rightarrow> allocation \<Rightarrow> real
     \<Rightarrow> py_error + (allocation \<times> real \<times> bool)" where
  "ls_days data lambda1 lambda2 pw pid base [] current curr_val =
     Inr (current, curr_val, False)"
| "ls_days data lambda1 lambda2 pw pid base (d # ds) current curr_val =
     (if d = day base then ls_days data lambda1 lambda2 pw pid base ds current curr_val
      else rbind (set_day pid d current) (\<lambda>trial.
           rbind (objective_value_penalized data trial lambda1 lambda2 pw) (\<lambda>val.
             if val + eps < curr_val then Inr (trial, val, True)
             else ls_days data lambda1 lambda2 pw pid base ds current curr_val)))"

text \<open>The loop over the sampled patients, with the time check at the top of its body.\<close>

fun ls_pids ::
  "pa_data \<Rightarrow> real \<Rightarrow> real \<Rightarrow> real \<Rightarrow> int \<Rightarrow> real \<Rightarrow> real \<Rightarrow> string list \<Rightarrow> allocation \<Rightarrow> real
     \<Rightarrow> world \<Rightarrow> py_error + (allocation \<times> real \<times> bool \<times> world)" where
  "ls_pids data lambda1 lambda2 pw ndays t0 max_time_seconds [] current curr_val w =
     Inr (current, curr_val, False, w)"
| "ls_pids data lambda1 lambda2 pw ndays t0 max_time_seconds (pid # pids) current curr_val w =
     (case time_time w of (t, w1) \<Rightarrow>
        if t - t0 > max_time_seconds then Inr (current, curr_val, False, w1)
        else
          rbind (py_lookup (patients data) pid) (\<lambda>p.
          rbind (py_lookup current pid) (\<lambda>base.
            (let possible_days = py_range (earliest p) (min (latest p + 1) (num_days data)) in
             rbind (random_sample possible_days
                      (min ndays (int (length possible_days))) w1) (\<lambda>(days_to_try, w2).
             rbind (ls_days data lambda1 lambda2 pw pid base days_to_try current curr_val)
               (\<lambda>(current', curr_val', improved).
                  if improved then Inr (current', curr_val', True, w2)
                  else ls_pids data lambda1 lambda2 pw ndays t0 max_time_seconds pids
                         current' curr_val' w2))))))"

text \<open>The \<open>while iterations < max_iterations\<close> loop, by the number of rounds left.\<close>

fun ls_rounds ::
  "pa_data \<Rightarrow> real \<Rightarrow> real \<Rightarrow> real \<Rightarrow> int \<Rightarrow> int \<Rightarrow> real \<Rightarrow> real \<Rightarrow> nat \<Rightarrow> allocation \<Rightarrow> real
     \<Rightarrow> world \<Rightarrow> py_error + (allocation \<times> real \<times> world)" where
  "ls_rounds data lambda1 lambda2 pw ndays num_patients_to_check t0 max_time_seconds 0
     current curr_val w = Inr (current, curr_val, w)"
| "ls_rounds data lambda1 lambda2 pw ndays num_patients_to_check t0 max_time_seconds (Suc n)
     current curr_val w =
     (case time_time w of (t, w1) \<Rightarrow>
        if t - t0 > max_time_seconds then Inr (current, curr_val, w1)
        else
          rbind (random_sample (map fst (patients data))
                   (min num_patients_to_check (int (length (patients data)))) w1)
            (\<lambda>(pids_sample, w2).
          rbind (ls_pids data lambda1 lambda2 pw ndays t0 max_time_seconds pids_sample
                   current curr_val w2) (\<lambda>(current', curr_val', improved, w3).
            if \<not> improved then Inr (current', curr_val', w3)
            else ls_rounds data lambda1 lambda2 pw ndays num_patients_to_check t0
                   max_time_seconds n current' curr_val' w3)))"

definition local_search_fast ::
  "nat \<Rightarrow> real \<Rightarrow> int \<Rightarrow> pa_data \<Rightarrow> real \<Rightarrow> real \<Rightarrow> real \<Rightarrow> allocation \<Rightarrow> real \<Rightarrow> world
     \<Rightarrow> py_error + (allocation \<times> real \<times> world)" where
  "local_search_fast max_iterations fraction ndays data lambda1 lambda2 pw allocation
     max_time_seconds w =
     (case time_time w of (t0, w0) \<Rightarrow>
        rbind (objective_value_penalized data allocation lambda1 lambda2 pw) (\<lambda>curr_val.
          (let num_patients_to_check =
                 max 10 \<lfloor>real (length (patients data)) * fraction\<rfloor>
           in ls_rounds data lambda1 lambda2 pw ndays num_patients_to_check t0
                max_time_seconds max_iterations allocation curr_val w0)))"

definition ils_local_search_fast ::
  "pa_data \<Rightarrow> real \<Rightarrow> real \<Rightarrow> real \<Rightarrow> allocation \<Rightarrow> real \<Rightarrow> world
     \<Rightarrow> py_error + (allocation \<times> real \<times> world)" where
  "ils_local_search_fast = local_search_fast 10 (3 / 10) 3"

definition vns_local_search_fast ::
  "pa_data \<Rightarrow> real \<Rightarrow> real \<Rightarrow> real \<Rightarrow> allocation \<Rightarrow> real \<Rightarrow> world
     \<Rightarrow> py_error + (allocation \<times> real \<times> world)" where
  "vns_local_search_fast = local_search_fast 5 (2 / 10) 2"

section \<open>Iterated Local Search\<close>

text \<open>The constants set by \<open>IteratedLocalSearch.__init__\<close>.\<close>

definition STAGNATION_LIMIT :: nat where
  "STAGNATION_LIMIT = 20"

definition PERTURB_BASE_RATIO :: real where
  "PERTURB_BASE_RATIO = 10 / 100"

definition PERTURB_MAX_RATIO :: real where
  "PERTURB_MAX_RATIO = 25 / 100"

text \<open>
  What a verbose run prints, as events: the initial objective, a timeout, a new best
  (iteration and value), a perturbation (iteration and intensity), the early stop, the
  final line with the best value, and the progress line of VNS (iteration, neighborhood
  index, best value).
\<close>

datatype event =
    Initial real
  | TimeoutReached
  | NewBest nat real
  | Perturbazione nat real
  | StoppingEarly
  | Done real
  | Exploring nat nat real

text \<open>
  \<open>_perturbation_mixed\<close>. The delay scores are taken from the allocation given; the
  pairs (score, patient) are sorted in descending order and the first
  \<open>num_to_perturb // 2\<close> are the worst contributors; as many patients again are sampled
  at random; each selected patient gets a random compatible ward and a random day of its
  window inside the horizon.
\<close>

fun worst_loop :: "pa_data \<Rightarrow> allocation \<Rightarrow> string list \<Rightarrow> py_error + (int \<times> string) list" where
  "worst_loop data allocation [] = Inr []"
| "worst_loop data allocation (pid # pids) =
     rbind (py_lookup (patients data) pid) (\<lambda>p.
     rbind (py_lookup allocation pid) (\<lambda>a.
     rbind (worst_loop data allocation pids) (\<lambda>rest.
       Inr ((max 0 (day a - earliest p), pid) # rest))))"

fun perturb_loop ::
  "pa_data \<Rightarrow> string list \<Rightarrow> allocation \<Rightarrow> world \<Rightarrow> py_error + (allocation \<times> world)" where
  "perturb_loop data [] perturbed w = Inr (perturbed, w)"
| "perturb_loop data (pid # pids) perturbed w =
     rbind (py_lookup (patients data) pid) (\<lambda>p.
     rbind (random_choice (compatible_wards_for_patient data p) w) (\<lambda>(new_ward, w1).
     rbind (random_randint (earliest p) (min (latest p) (num_days data - 1)) w1)
       (\<lambda>(new_day, w2).
          perturb_loop data pids
            (AList.update pid \<lparr>ward = new_ward, day = new_day\<rparr> perturbed) w2)))"

definition perturbation_mixed ::
  "pa_data \<Rightarrow> allocation \<Rightarrow> real \<Rightarrow> world \<Rightarrow> py_error + (allocation \<times> world)" where
  "perturbation_mixed data allocation intensity w =
     (let num_to_perturb = max 1 \<lfloor>real (length (patients data)) * intensity\<rfloor> in
      rbind (worst_loop data allocation (map fst (patients data))) (\<lambda>worst_pids.
        (let worst_contributors =
               map snd (take (nat (num_to_perturb div 2)) (rev (sort worst_pids)));
             num_random = num_to_perturb div 2
         in rbind (random_sample (map fst (patients data)) num_random w)
              (\<lambda>(patients_random, w1).
                 perturb_loop data (patients_random @ worst_contributors) allocation w1))))"

text \<open>
  The state of \<open>IteratedLocalSearch.solve\<close>: the store, the references held by
  \<open>current\<close> and \<open>self.best_feasible_allocation\<close>, the best value, the stagnation
  counter, the printed events and the world.
\<close>

record ils_state =
  heap :: store
  current :: nat
  best_feasible_allocation :: nat
  best_feasible_value :: real
  no_improve_counter :: nat
  printed :: "event list"
  env :: world

definition emit :: "bool \<Rightarrow> event \<Rightarrow> event list \<Rightarrow> event list" where
  "emit verbose e out = (if verbose then out @ [e] else out)"

text \<open>
  The start of \<open>solve\<close>: the clock is read, the start allocation is copied, and the copy
  must pass the capacity check, or \<open>ValueError\<close> is raised. The start allocation is
  object 0 of a new store.
\<close>

definition start_error :: py_error where
  "start_error = ValueError ''Start allocation must be feasible!''"

definition ils_init ::
  "pa_data \<Rightarrow> real \<Rightarrow> real \<Rightarrow> allocation \<Rightarrow> bool \<Rightarrow> world \<Rightarrow> py_error + (real \<times> ils_state)" where
  "ils_init data lambda1 lambda2 start_allocation verbose w =
     (case time_time w of (t0, w0) \<Rightarrow>
      case deepcopy 0 \<lparr>cells = (\<lambda>r. start_allocation), fresh = 1\<rparr> of (cur, h1) \<Rightarrow>
        rbind (feasible_after_change_beds data (cells h1 cur) None) (\<lambda>ok.
          if ok then
            (case deepcopy cur h1 of (best, h2) \<Rightarrow>
               rbind (objective_value data (cells h2 cur) lambda1 lambda2) (\<lambda>v.
                 Inr (t0, \<lparr>heap = h2, current = cur, best_feasible_allocation = best,
                           best_feasible_value = v, no_improve_counter = 0,
                           printed = emit verbose (Initial v) [], env = w0\<rparr>)))
          else Inl start_error))"

text \<open>
  One iteration of the \<open>for\<close> loop after the time check. First the local search on
  \<open>current\<close>, written back into the same object, and the acceptance test: a result that
  passes the capacity check and whose objective is lower than the best by more than
  \<open>1e-9\<close> is copied into the best (\<open>ils_new_best\<close>); anything else adds one to the
  counter.
\<close>

definition ils_new_best :: "bool \<Rightarrow> nat \<Rightarrow> real \<Rightarrow> ils_state \<Rightarrow> ils_state" where
  "ils_new_best verbose iteration curr_val s =
     (case deepcopy (current s) (heap s) of (best, h) \<Rightarrow>
      case (if verbose then time_time (env s) else (0, env s)) of (t, w) \<Rightarrow>
        s\<lparr>heap := h, best_feasible_allocation := best,
          best_feasible_value := curr_val, no_improve_counter := 0,
          printed := emit verbose (NewBest iteration curr_val) (printed s),
          env := w\<rparr>)"

definition ils_consider ::
  "pa_data \<Rightarrow> real \<Rightarrow> real \<Rightarrow> bool \<Rightarrow> nat \<Rightarrow> ils_state \<Rightarrow> py_error + ils_state" where
  "ils_consider data lambda1 lambda2 verbose iteration s =
     rbind (feasible_after_change_beds data (cells (heap s) (current s)) None) (\<lambda>ok.
       if ok then
         rbind (objective_value data (cells (heap s) (current s)) lambda1 lambda2)
           (\<lambda>curr_val.
              if curr_val + eps < best_feasible_value s
              then Inr (ils_new_best verbose iteration curr_val s)
              else Inr (s\<lparr>no_improve_counter := no_improve_counter s + 1\<rparr>))
       else Inr (s\<lparr>no_improve_counter := no_improve_counter s + 1\<rparr>))"

definition ils_accept ::
  "pa_data \<Rightarrow> real \<Rightarrow> real \<Rightarrow> real \<Rightarrow> bool \<Rightarrow> nat \<Rightarrow> ils_state \<Rightarrow> py_error + ils_state" where
  "ils_accept data lambda1 lambda2 pw verbose iteration s =
     rbind (ils_local_search_fast data lambda1 lambda2 pw (cells (heap s) (current s)) 30 (env s))
       (\<lambda>(al, curr_val_pen, w1).
          ils_consider data lambda1 lambda2 verbose iteration
            (s\<lparr>heap := write_cell (current s) al (heap s), env := w1\<rparr>))"

text \<open>
  Then the stagnation test: when the counter has reached \<open>STAGNATION_LIMIT\<close>, the
  intensity is computed from the counter, the best allocation is perturbed into a new
  object that becomes \<open>current\<close>, and the counter is set to 0.
\<close>

definition perturb_intensity :: "nat \<Rightarrow> real" where
  "perturb_intensity counter =
     min PERTURB_MAX_RATIO
         (PERTURB_BASE_RATIO * (1 + real counter / real STAGNATION_LIMIT))"

definition ils_stagnation ::
  "pa_data \<Rightarrow> bool \<Rightarrow> nat \<Rightarrow> ils_state \<Rightarrow> py_error + ils_state" where
  "ils_stagnation data verbose iteration s =
     (if no_improve_counter s \<ge> STAGNATION_LIMIT then
        (let intensity = perturb_intensity (no_improve_counter s) in
         rbind (perturbation_mixed data (cells (heap s) (best_feasible_allocation s))
                  intensity (env s)) (\<lambda>(perturbed, w1).
           (case alloc_new perturbed (heap s) of (r, h) \<Rightarrow>
              Inr (s\<lparr>heap := h, current := r, no_improve_counter := 0,
                      printed := emit verbose (Perturbazione iteration intensity) (printed s),
                      env := w1\<rparr>))))
      else Inr s)"

definition ils_body ::
  "pa_data \<Rightarrow> real \<Rightarrow> real \<Rightarrow> real \<Rightarrow> bool \<Rightarrow> nat \<Rightarrow> ils_state \<Rightarrow> py_error + ils_state" where
  "ils_body data lambda1 lambda2 pw verbose iteration s =
     rbind (ils_accept data lambda1 lambda2 pw verbose iteration s)
       (ils_stagnation data verbose iteration)"

text \<open>
  One pass of \<open>for iteration in range(max_iterations)\<close>: the time check, the body, and
  the test that ends the loop when the counter is at twice the stagnation limit or more.
  The flag says whether the loop goes on.
\<close>

definition ils_iter ::
  "pa_data \<Rightarrow> real \<Rightarrow> real \<Rightarrow> real \<Rightarrow> bool \<Rightarrow> real \<Rightarrow> real \<Rightarrow> nat \<Rightarrow> ils_state
     \<Rightarrow> py_error + (ils_state \<times> bool)" where
  "ils_iter data lambda1 lambda2 pw verbose t0 max_time_seconds iteration s =
     (case time_time (env s) of (t, w1) \<Rightarrow>
        if t - t0 > max_time_seconds
        then Inr (s\<lparr>env := w1, printed := emit verbose TimeoutReached (printed s)\<rparr>, False)
        else
          rbind (ils_body data lambda1 lambda2 pw verbose iteration (s\<lparr>env := w1\<rparr>))
            (\<lambda>s'. if no_improve_counter s' \<ge> STAGNATION_LIMIT * 2
                   then Inr (s'\<lparr>printed := emit verbose StoppingEarly (printed s')\<rparr>, False)
                   else Inr (s', True)))"

text \<open>
  The loop, by the number of iterations left. It returns the states the run goes
  through, in order: the state at the top of every pass, then the state the loop ends in.
\<close>

fun ils_run ::
  "pa_data \<Rightarrow> real \<Rightarrow> real \<Rightarrow> real \<Rightarrow> bool \<Rightarrow> real \<Rightarrow> real \<Rightarrow> nat \<Rightarrow> nat \<Rightarrow> ils_state
     \<Rightarrow> py_error + ils_state list" where
  "ils_run data lambda1 lambda2 pw verbose t0 max_time_seconds iteration 0 s = Inr [s]"
| "ils_run data lambda1 lambda2 pw verbose t0 max_time_seconds iteration (Suc n) s =
     rbind (ils_iter data lambda1 lambda2 pw verbose t0 max_time_seconds iteration s)
       (\<lambda>(s', go).
          if go then
            rbind (ils_run data lambda1 lambda2 pw verbose t0 max_time_seconds
                     (Suc iteration) n s') (\<lambda>states. Inr (s # states))
          else Inr [s, s'])"

text \<open>The dictionary returned by \<open>solve\<close>, and next to it what the run printed.\<close>

record search_result =
  res_objective_value :: real
  res_solve_time :: real
  res_allocation :: allocation

definition ils_finish :: "bool \<Rightarrow> real \<Rightarrow> ils_state \<Rightarrow> search_result \<times> event list" where
  "ils_finish verbose t0 s =
     (case time_time (env s) of (t, w1) \<Rightarrow>
        (\<lparr>res_objective_value = best_feasible_value s,
          res_solve_time = t - t0,
          res_allocation = cells (heap s) (best_feasible_allocation s)\<rparr>,
         emit verbose (Done (best_feasible_value s)) (printed s)))"

definition ils_solve ::
  "pa_data \<Rightarrow> real \<Rightarrow> real \<Rightarrow> real \<Rightarrow> allocation \<Rightarrow> nat \<Rightarrow> real \<Rightarrow> bool \<Rightarrow> world
     \<Rightarrow> py_error + (search_result \<times> event list)" where
  "ils_solve data lambda1 lambda2 pw start_allocation max_iterations max_time_minutes verbose w =
     rbind (ils_init data lambda1 lambda2 start_allocation verbose w) (\<lambda>(t0, s0).
     rbind (ils_run data lambda1 lambda2 pw verbose t0 (max_time_minutes * 60) 0
              max_iterations s0) (\<lambda>states.
       Inr (ils_finish verbose t0 (last states))))"

section \<open>Variable Neighborhood Search\<close>

definition K_MAX :: nat where
  "K_MAX = 4"

text \<open>
  The four shakes. Each works on a deep copy of the allocation it is given, so the
  model takes the value and returns the shaken value.

  \<open>_shake_N1\<close>: one random patient, its day shifted by -2, -1, 1 or 2 when the new day
  is inside the window and the horizon.
\<close>

definition shake_N1 :: "pa_data \<Rightarrow> allocation \<Rightarrow> world \<Rightarrow> py_error + (allocation \<times> world)" where
  "shake_N1 data allocation w =
     rbind (random_choice (map fst (patients data)) w) (\<lambda>(pid, w1).
     rbind (py_lookup (patients data) pid) (\<lambda>p.
     rbind (py_lookup allocation pid) (\<lambda>a.
     rbind (random_choice [- 2, - 1, 1, 2] w1) (\<lambda>(shift, w2).
       (let new_day = day a + shift in
        if earliest p \<le> new_day \<and> new_day \<le> min (latest p) (num_days data - 1)
        then rbind (set_day pid new_day allocation) (\<lambda>shaken. Inr (shaken, w2))
        else Inr (allocation, w2))))))"

text \<open>\<open>_shake_N2\<close>: one random patient moved to another compatible ward, if there is
  more than one compatible ward.\<close>

definition shake_N2 :: "pa_data \<Rightarrow> allocation \<Rightarrow> world \<Rightarrow> py_error + (allocation \<times> world)" where
  "shake_N2 data allocation w =
     rbind (random_choice (map fst (patients data)) w) (\<lambda>(pid, w1).
     rbind (py_lookup (patients data) pid) (\<lambda>p.
       (let wards_p = compatible_wards_for_patient data p in
        if length wards_p > 1 then
          rbind (py_lookup allocation pid) (\<lambda>a.
          rbind (random_choice (filter (\<lambda>wn. wn \<noteq> ward a) wards_p) w1) (\<lambda>(new_ward, w2).
          rbind (set_ward pid new_ward allocation) (\<lambda>shaken. Inr (shaken, w2))))
        else Inr (allocation, w1))))"

text \<open>\<open>_shake_N3\<close>: up to two random patients; for each, a coin flip between a random
  day of the window and a random compatible ward.\<close>

fun shake_N3_loop ::
  "pa_data \<Rightarrow> string list \<Rightarrow> allocation \<Rightarrow> world \<Rightarrow> py_error + (allocation \<times> world)" where
  "shake_N3_loop data [] shaken w = Inr (shaken, w)"
| "shake_N3_loop data (pid # pids) shaken w =
     rbind (py_lookup (patients data) pid) (\<lambda>p.
       (case random_random w of (u, w1) \<Rightarrow>
          if u < 1 / 2 then
            rbind (random_randint (earliest p) (min (latest p) (num_days data - 1)) w1)
              (\<lambda>(new_day, w2).
            rbind (set_day pid new_day shaken) (\<lambda>shaken'.
              shake_N3_loop data pids shaken' w2))
          else
            (let wards_p = compatible_wards_for_patient data p in
             if length wards_p > 1 then
               rbind (random_choice wards_p w1) (\<lambda>(new_ward, w2).
               rbind (set_ward pid new_ward shaken) (\<lambda>shaken'.
                 shake_N3_loop data pids shaken' w2))
             else shake_N3_loop data pids shaken w1)))"

definition shake_N3 :: "pa_data \<Rightarrow> allocation \<Rightarrow> world \<Rightarrow> py_error + (allocation \<times> world)" where
  "shake_N3 data allocation w =
     rbind (random_sample (map fst (patients data))
              (min 2 (int (length (patients data)))) w) (\<lambda>(pids_to_move, w1).
       shake_N3_loop data pids_to_move allocation w1)"

text \<open>\<open>_shake_N4\<close>: two random patients exchange their (ward, day) pairs when each
  pair suits the other patient.\<close>

definition shake_N4 :: "pa_data \<Rightarrow> allocation \<Rightarrow> world \<Rightarrow> py_error + (allocation \<times> world)" where
  "shake_N4 data allocation w =
     (if length (patients data) \<ge> 2 then
        rbind (random_sample (map fst (patients data)) 2 w) (\<lambda>(pids, w1).
          (let p1_id = pids ! 0; p2_id = pids ! 1 in
           rbind (py_lookup (patients data) p1_id) (\<lambda>p1.
           rbind (py_lookup (patients data) p2_id) (\<lambda>p2.
           rbind (py_lookup allocation p1_id) (\<lambda>a1.
           rbind (py_lookup allocation p2_id) (\<lambda>a2.
             (let p1_wards = compatible_wards_for_patient data p1;
                  p2_wards = compatible_wards_for_patient data p2
              in if ward a2 \<in> set p1_wards \<and> ward a1 \<in> set p2_wards
                    \<and> earliest p1 \<le> day a2 \<and> day a2 \<le> min (latest p1) (num_days data - 1)
                    \<and> earliest p2 \<le> day a1 \<and> day a1 \<le> min (latest p2) (num_days data - 1)
                 then Inr (AList.update p2_id \<lparr>ward = ward a1, day = day a1\<rparr>
                            (AList.update p1_id \<lparr>ward = ward a2, day = day a2\<rparr> allocation),
                           w1)
                 else Inr (allocation, w1))))))))
      else Inr (allocation, w))"

definition shake ::
  "pa_data \<Rightarrow> allocation \<Rightarrow> nat \<Rightarrow> world \<Rightarrow> py_error + (allocation \<times> world)" where
  "shake data allocation k w =
     (if k = 1 then shake_N1 data allocation w
      else if k = 2 then shake_N2 data allocation w
      else if k = 3 then shake_N3 data allocation w
      else shake_N4 data allocation w)"

text \<open>
  The state of \<open>VariableNeighborhoodSearch.solve\<close>: the store, the references held by
  \<open>current\<close> and \<open>self.best_feasible_allocation\<close>, the best value, the neighborhood
  index \<open>k\<close>, the printed events and the world.
\<close>

record vns_state =
  vheap :: store
  vcurrent :: nat
  vbest_feasible_allocation :: nat
  vbest_feasible_value :: real
  k_index :: nat
  vprinted :: "event list"
  venv :: world

definition vns_init ::
  "pa_data \<Rightarrow> real \<Rightarrow> real \<Rightarrow> allocation \<Rightarrow> bool \<Rightarrow> world \<Rightarrow> py_error + (real \<times> vns_state)" where
  "vns_init data lambda1 lambda2 start_allocation verbose w =
     (case time_time w of (t0, w0) \<Rightarrow>
      case deepcopy 0 \<lparr>cells = (\<lambda>r. start_allocation), fresh = 1\<rparr> of (cur, h1) \<Rightarrow>
        rbind (feasible_after_change_beds data (cells h1 cur) None) (\<lambda>ok.
          if ok then
            (case deepcopy cur h1 of (best, h2) \<Rightarrow>
               rbind (objective_value data (cells h2 cur) lambda1 lambda2) (\<lambda>v.
                 Inr (t0, \<lparr>vheap = h2, vcurrent = cur, vbest_feasible_allocation = best,
                           vbest_feasible_value = v, k_index = 1,
                           vprinted = emit verbose (Initial v) [], venv = w0\<rparr>)))
          else Inl start_error))"

text \<open>
  The candidate of one iteration: the shake of \<open>current\<close> in neighborhood \<open>k\<close> is a new
  object, and the local search writes into that object.
\<close>

definition vns_candidate ::
  "pa_data \<Rightarrow> real \<Rightarrow> real \<Rightarrow> real \<Rightarrow> vns_state \<Rightarrow> py_error + (nat \<times> vns_state)" where
  "vns_candidate data lambda1 lambda2 pw s =
     rbind (shake data (cells (vheap s) (vcurrent s)) (k_index s) (venv s)) (\<lambda>(sh, w1).
       (case alloc_new sh (vheap s) of (shaken, h1) \<Rightarrow>
          rbind (vns_local_search_fast data lambda1 lambda2 pw (cells h1 shaken) 15 w1)
            (\<lambda>(al, improved_val_pen, w2).
               Inr (shaken, s\<lparr>vheap := write_cell shaken al h1, venv := w2\<rparr>))))"

text \<open>
  The test on the candidate \<open>improved_solution\<close>: when it passes the capacity check and
  its objective is lower than the best by more than \<open>1e-9\<close>, it becomes \<open>current\<close>, a
  copy of it becomes the best, and \<open>k\<close> is set to 1 (\<open>vns_new_best\<close>); otherwise \<open>k\<close>
  grows by one.
\<close>

definition vns_new_best :: "bool \<Rightarrow> nat \<Rightarrow> nat \<Rightarrow> real \<Rightarrow> vns_state \<Rightarrow> vns_state" where
  "vns_new_best verbose iteration improved_solution improved_val s =
     (case deepcopy improved_solution (vheap s) of (best, h) \<Rightarrow>
      case (if verbose then time_time (venv s) else (0, venv s)) of (t, w) \<Rightarrow>
        s\<lparr>vheap := h, vbest_feasible_allocation := best,
          vbest_feasible_value := improved_val,
          vcurrent := improved_solution, k_index := 1,
          vprinted := emit verbose (NewBest iteration improved_val) (vprinted s),
          venv := w\<rparr>)"

definition vns_consider ::
  "pa_data \<Rightarrow> real \<Rightarrow> real \<Rightarrow> bool \<Rightarrow> nat \<Rightarrow> nat \<Rightarrow> vns_state \<Rightarrow> py_error + vns_state" where
  "vns_consider data lambda1 lambda2 verbose iteration improved_solution s =
     rbind (feasible_after_change_beds data (cells (vheap s) improved_solution) None) (\<lambda>ok.
       if ok then
         rbind (objective_value data (cells (vheap s) improved_solution) lambda1 lambda2)
           (\<lambda>improved_val.
              if improved_val + eps < vbest_feasible_value s
              then Inr (vns_new_best verbose iteration improved_solution improved_val s)
              else Inr (s\<lparr>k_index := k_index s + 1\<rparr>))
       else Inr (s\<lparr>k_index := k_index s + 1\<rparr>))"

text \<open>After the test, a \<open>k\<close> above \<open>K_MAX\<close> is set back to 1, and every twentieth
  iteration of a verbose run prints a progress line.\<close>

definition vns_wrap :: "vns_state \<Rightarrow> vns_state" where
  "vns_wrap s = (if k_index s > K_MAX then s\<lparr>k_index := 1\<rparr> else s)"

definition vns_progress :: "bool \<Rightarrow> nat \<Rightarrow> vns_state \<Rightarrow> vns_state" where
  "vns_progress verbose iteration s =
     (if iteration mod 20 = 0 \<and> verbose then
        (case time_time (venv s) of (t, w) \<Rightarrow>
           s\<lparr>venv := w,
             vprinted := vprinted s
                @ [Exploring iteration (k_index s) (vbest_feasible_value s)]\<rparr>)
      else s)"

definition vns_body ::
  "pa_data \<Rightarrow> real \<Rightarrow> real \<Rightarrow> real \<Rightarrow> bool \<Rightarrow> nat \<Rightarrow> vns_state \<Rightarrow> py_error + vns_state" where
  "vns_body data lambda1 lambda2 pw verbose iteration s =
     rbind (vns_candidate data lambda1 lambda2 pw s) (\<lambda>(improved_solution, s1).
     rbind (vns_consider data lambda1 lambda2 verbose iteration improved_solution s1) (\<lambda>s2.
       Inr (vns_progress verbose iteration (vns_wrap s2))))"

text \<open>
  One pass of \<open>while iteration < max_iterations\<close>: the time check, the increment of
  \<open>iteration\<close>, the body. The flag says whether the loop goes on.
\<close>

definition vns_iter ::
  "pa_data \<Rightarrow> real \<Rightarrow> real \<Rightarrow> real \<Rightarrow> bool \<Rightarrow> real \<Rightarrow> real \<Rightarrow> nat \<Rightarrow> vns_state
     \<Rightarrow> py_error + (vns_state \<times> bool)" where
  "vns_iter data lambda1 lambda2 pw verbose t0 max_time_seconds iteration s =
     (case time_time (venv s) of (t, w1) \<Rightarrow>
        if t - t0 > max_time_seconds
        then Inr (s\<lparr>venv := w1, vprinted := emit verbose TimeoutReached (vprinted s)\<rparr>, False)
        else
          rbind (vns_body data lambda1 lambda2 pw verbose (Suc iteration) (s\<lparr>venv := w1\<rparr>))
            (\<lambda>s'. Inr (s', True)))"

text \<open>
  The loop, by the number of iterations left, returning the states the run goes through:
  the state at the top of every pass, where the shake is applied, then the state the
  loop ends in.
\<close>

fun vns_run ::
  "pa_data \<Rightarrow> real \<Rightarrow> real \<Rightarrow> real \<Rightarrow> bool \<Rightarrow> real \<Rightarrow> real \<Rightarrow> nat \<Rightarrow> nat \<Rightarrow> vns_state
     \<Rightarrow> py_error + vns_state list" where
  "vns_run data lambda1 lambda2 pw verbose t0 max_time_seconds iteration 0 s = Inr [s]"
| "vns_run data lambda1 lambda2 pw verbose t0 max_time_seconds iteration (Suc n) s =
     rbind (vns_iter data lambda1 lambda2 pw verbose t0 max_time_seconds iteration s)
       (\<lambda>(s', go).
          if go then
            rbind (vns_run data lambda1 lambda2 pw verbose t0 max_time_seconds
                     (Suc iteration) n s') (\<lambda>states. Inr (s # states))
          else Inr [s, s'])"

definition vns_finish :: "bool \<Rightarrow> real \<Rightarrow> vns_state \<Rightarrow> search_result \<times> event list" where
  "vns_finish verbose t0 s =
     (case time_time (venv s) of (t, w1) \<Rightarrow>
        (\<lparr>res_objective_value = vbest_feasible_value s,
          res_solve_time = t - t0,
          res_allocation = cells (vheap s) (vbest_feasible_allocation s)\<rparr>,
         emit verbose (Done (vbest_feasible_value s)) (vprinted s)))"

definition vns_solve ::
  "pa_data \<Rightarrow> real \<Rightarrow> real \<Rightarrow> real \<Rightarrow> allocation \<Rightarrow> nat \<Rightarrow> real \<Rightarrow> bool \<Rightarrow> world
     \<Rightarrow> py_error + (search_result \<times> event list)" where
  "vns_solve data lambda1 lambda2 pw start_allocation max_iterations max_time_minutes verbose w =
     rbind (vns_init data lambda1 lambda2 start_allocation verbose w) (\<lambda>(t0, s0).
     rbind (vns_run data lambda1 lambda2 pw verbose t0 (max_time_minutes * 60) 0
              max_iterations s0) (\<lambda>states.
       Inr (vns_finish verbose t0 (last states))))"

section \<open>The class \<open>Solution\<close> of \<open>metaheuristics.py\<close>\<close>

text \<open>
  The objective of a \<open>Solution\<close> is a float that is either finite or \<open>float('inf')\<close>.
\<close>

datatype objv = Fin real | Infinity

record solution =
  sol_allocation :: allocation
  sol_objective_value :: objv
  sol_feasible :: bool

text \<open>\<open>Solution(data)\<close>: empty allocation, objective \<open>inf\<close>, not feasible.\<close>

definition new_solution :: solution where
  "new_solution = \<lparr>sol_allocation = [], sol_objective_value = Infinity, sol_feasible = False\<rparr>"

text \<open>
  \<open>_check_feasibility\<close>, in its four steps: (1) as many entries as patients, (2) every
  day inside its patient's window, (3) no ward-day above its bed capacity, (4) every
  patient in a ward compatible with its specialization. Each step returns \<open>False\<close> at the
  first failure.
\<close>

fun window_loop :: "pa_data \<Rightarrow> allocation \<Rightarrow> py_error + bool" where
  "window_loop data [] = Inr True"
| "window_loop data ((patient_id, a) # rest) =
     rbind (py_lookup (patients data) patient_id) (\<lambda>p.
       if \<not> (earliest p \<le> day a \<and> day a \<le> latest p) then Inr False
       else window_loop data rest)"

fun beds_days ::
  "pa_data \<Rightarrow> allocation \<Rightarrow> string \<Rightarrow> ward_rec \<Rightarrow> int list \<Rightarrow> py_error + bool" where
  "beds_days data al ward_name w [] = Inr True"
| "beds_days data al ward_name w (d # ds) =
     rbind (py_index (carryover_patients w) d) (\<lambda>count0.
     rbind (count_beds_loop data ward_name d al count0) (\<lambda>patients_count.
       if patients_count > bed_capacity w then Inr False
       else beds_days data al ward_name w ds))"

fun beds_wards :: "pa_data \<Rightarrow> allocation \<Rightarrow> (string \<times> ward_rec) list \<Rightarrow> py_error + bool" where
  "beds_wards data al [] = Inr True"
| "beds_wards data al ((ward_name, w) # ws) =
     rbind (beds_days data al ward_name w (py_range 0 (num_days data))) (\<lambda>ok.
       if ok then beds_wards data al ws else Inr False)"

fun compat_loop :: "pa_data \<Rightarrow> allocation \<Rightarrow> py_error + bool" where
  "compat_loop data [] = Inr True"
| "compat_loop data ((patient_id, a) # rest) =
     rbind (py_lookup (patients data) patient_id) (\<lambda>p.
     rbind (py_lookup (wards data) (ward a)) (\<lambda>w.
       if specialization p \<noteq> major_specialization w
          \<and> specialization p \<notin> set (minor_specializations w)
       then Inr False
       else compat_loop data rest))"

definition check_feasibility :: "pa_data \<Rightarrow> allocation \<Rightarrow> py_error + bool" where
  "check_feasibility data al =
     (if length al \<noteq> length (patients data) then Inr False
      else rbind (window_loop data al) (\<lambda>ok2.
        if \<not> ok2 then Inr False
        else rbind (beds_wards data al (wards data)) (\<lambda>ok3.
          if \<not> ok3 then Inr False
          else compat_loop data al)))"

text \<open>
  \<open>_calculate_operational_cost\<close>: the weighted delays (day minus earliest day, not
  clipped at 0), then for every specialization and day the weighted overtime or
  undertime.
\<close>

fun cost_delays :: "pa_data \<Rightarrow> allocation \<Rightarrow> real \<Rightarrow> py_error + real" where
  "cost_delays data [] cost = Inr cost"
| "cost_delays data ((patient_id, a) # rest) cost =
     rbind (py_lookup (patients data) patient_id) (\<lambda>p.
       cost_delays data rest
         (cost + weight_delay data * real_of_int (day a - earliest p)))"

fun cost_days ::
  "pa_data \<Rightarrow> allocation \<Rightarrow> string \<Rightarrow> int list \<Rightarrow> real \<Rightarrow> py_error + real" where
  "cost_days data al spec [] cost = Inr cost"
| "cost_days data al spec (d # ds) cost =
     rbind (ot_used_loop data al spec d 0) (\<lambda>ot_used.
     rbind (py_lookup (specialisms data) spec) (\<lambda>s.
     rbind (py_index (ot_time s) d) (\<lambda>ot_available.
       cost_days data al spec ds
         (if ot_used > ot_available
          then cost + weight_overtime data * (ot_used - ot_available)
          else cost + weight_undertime data * (ot_available - ot_used)))))"

fun cost_specs :: "pa_data \<Rightarrow> allocation \<Rightarrow> string list \<Rightarrow> real \<Rightarrow> py_error + real" where
  "cost_specs data al [] cost = Inr cost"
| "cost_specs data al (spec # specs) cost =
     rbind (cost_days data al spec (py_range 0 (num_days data)) cost)
       (\<lambda>cost'. cost_specs data al specs cost')"

definition calculate_operational_cost :: "pa_data \<Rightarrow> allocation \<Rightarrow> py_error + real" where
  "calculate_operational_cost data al =
     rbind (cost_delays data al 0) (\<lambda>cost.
       cost_specs data al (map fst (specialisms data)) cost)"

text \<open>
  \<open>_calculate_workload_balance\<close>: the maximum over ward-days of the workload divided by
  the workload capacity. The workload of a resident patient is read from its profile at
  the day of stay without a bounds check, and the division is not guarded.
\<close>

fun balance_patients ::
  "pa_data \<Rightarrow> string \<Rightarrow> ward_rec \<Rightarrow> int \<Rightarrow> allocation \<Rightarrow> real \<Rightarrow> py_error + real" where
  "balance_patients data ward_name w d [] total_workload = Inr total_workload"
| "balance_patients data ward_name w d ((patient_id, a) # rest) total_workload =
     (if ward a = ward_name then
        rbind (py_lookup (patients data) patient_id) (\<lambda>p.
          if day a \<le> d \<and> d < day a + los p then
            rbind (py_index (workload_per_day p) (d - day a)) (\<lambda>workload.
              if specialization p \<noteq> major_specialization w
                 \<and> specialization p \<in> set (minor_specializations w)
              then rbind (py_lookup (specialisms data) (specialization p)) (\<lambda>s.
                     balance_patients data ward_name w d rest
                       (total_workload + workload * workload_factor s))
              else balance_patients data ward_name w d rest (total_workload + workload))
          else balance_patients data ward_name w d rest total_workload)
      else balance_patients data ward_name w d rest total_workload)"

fun balance_days ::
  "pa_data \<Rightarrow> allocation \<Rightarrow> string \<Rightarrow> ward_rec \<Rightarrow> int list \<Rightarrow> real \<Rightarrow> py_error + real" where
  "balance_days data al ward_name w [] max_workload = Inr max_workload"
| "balance_days data al ward_name w (d # ds) max_workload =
     rbind (py_index (carryover_workload w) d) (\<lambda>total0.
     rbind (balance_patients data ward_name w d al total0) (\<lambda>total_workload.
       if workload_capacity w = 0 then Inl ZeroDivisionError
       else balance_days data al ward_name w ds
              (max max_workload (total_workload / workload_capacity w))))"

fun balance_wards ::
  "pa_data \<Rightarrow> allocation \<Rightarrow> (string \<times> ward_rec) list \<Rightarrow> real \<Rightarrow> py_error + real" where
  "balance_wards data al [] max_workload = Inr max_workload"
| "balance_wards data al ((ward_name, w) # ws) max_workload =
     rbind (balance_days data al ward_name w (py_range 0 (num_days data)) max_workload)
       (\<lambda>m. balance_wards data al ws m)"

definition calculate_workload_balance :: "pa_data \<Rightarrow> allocation \<Rightarrow> py_error + real" where
  "calculate_workload_balance data al = balance_wards data al (wards data) 0"

text \<open>
  \<open>evaluate\<close>: an allocation that fails the feasibility check gets the objective \<open>inf\<close>
  and the flag \<open>False\<close>; any other gets the flag \<open>True\<close> and the scalarized objective.
\<close>

definition evaluate :: "pa_data \<Rightarrow> solution \<Rightarrow> real \<Rightarrow> real \<Rightarrow> py_error + solution" where
  "evaluate data sol lambda1 lambda2 =
     rbind (check_feasibility data (sol_allocation sol)) (\<lambda>ok.
       if \<not> ok then Inr (sol\<lparr>sol_feasible := False, sol_objective_value := Infinity\<rparr>)
       else
         rbind (calculate_operational_cost data (sol_allocation sol)) (\<lambda>f1.
         rbind (calculate_workload_balance data (sol_allocation sol)) (\<lambda>f2.
           Inr (sol\<lparr>sol_feasible := True,
                   sol_objective_value := Fin (lambda1 * f1 + lambda2 * f2)\<rparr>))))"

section \<open>Simulated Annealing\<close>

text \<open>
  \<open>_generate_initial_solution\<close>: patients in the order of (window width, earliest day);
  for each, the days of the window inside the horizon and the compatible wards are
  tried until the whole allocation passes the feasibility check; when none does, the
  patient is put into its first compatible ward on its earliest day.
\<close>

fun try_wards ::
  "pa_data \<Rightarrow> string \<Rightarrow> int \<Rightarrow> string list \<Rightarrow> allocation \<Rightarrow> py_error + (allocation \<times> bool)" where
  "try_wards data patient_id d [] al = Inr (al, False)"
| "try_wards data patient_id d (ward_name # rest) al =
     (let al' = AList.update patient_id \<lparr>ward = ward_name, day = d\<rparr> al in
      rbind (check_feasibility data al') (\<lambda>ok.
        if ok then Inr (al', True) else try_wards data patient_id d rest al'))"

fun try_days ::
  "pa_data \<Rightarrow> string \<Rightarrow> string list \<Rightarrow> int list \<Rightarrow> allocation
     \<Rightarrow> py_error + (allocation \<times> bool)" where
  "try_days data patient_id compatible_wards [] al = Inr (al, False)"
| "try_days data patient_id compatible_wards (d # ds) al =
     (if d \<ge> num_days data then Inr (al, False)
      else rbind (try_wards data patient_id d compatible_wards al) (\<lambda>(al', allocated).
        if allocated then Inr (al', True)
        else try_days data patient_id compatible_wards ds al'))"

fun initial_loop ::
  "pa_data \<Rightarrow> (string \<times> patient_rec) list \<Rightarrow> allocation \<Rightarrow> py_error + allocation" where
  "initial_loop data [] al = Inr al"
| "initial_loop data ((patient_id, p) # rest) al =
     (let compatible_wards = compatible_wards_for_patient data p in
      rbind (try_days data patient_id compatible_wards
               (py_range (earliest p) (latest p + 1)) al) (\<lambda>(al', allocated).
        if allocated then initial_loop data rest al'
        else rbind (py_index compatible_wards 0) (\<lambda>w0.
               initial_loop data rest
                 (AList.update patient_id \<lparr>ward = w0, day = earliest p\<rparr> al'))))"

definition generate_initial_solution ::
  "pa_data \<Rightarrow> real \<Rightarrow> real \<Rightarrow> py_error + solution" where
  "generate_initial_solution data lambda1 lambda2 =
     rbind (initial_loop data
              (sort_key (\<lambda>(patient_id, p). (latest p - earliest p, earliest p))
                 (patients data)) []) (\<lambda>al.
       evaluate data (new_solution\<lparr>sol_allocation := al\<rparr>) lambda1 lambda2)"

text \<open>
  \<open>_get_neighbor\<close>: a copy of the solution with one random change (the day of a random
  patient, its ward, or the days of two patients exchanged), evaluated.
  \<open>list.remove\<close> raises \<open>ValueError\<close> when the element is not in the list.
\<close>

definition list_remove :: "string \<Rightarrow> string list \<Rightarrow> py_error + string list" where
  "list_remove x xs =
     (if x \<in> set xs then Inr (remove1 x xs)
      else Inl (ValueError ''list.remove(x): x not in list''))"

definition neighbor_change ::
  "pa_data \<Rightarrow> string \<Rightarrow> patient_rec \<Rightarrow> string \<Rightarrow> allocation \<Rightarrow> world
     \<Rightarrow> py_error + (allocation \<times> world)" where
  "neighbor_change data patient_id p operation al w =
     (if operation = ''change_day'' then
        rbind (random_randint (earliest p) (latest p) w) (\<lambda>(new_day, w1).
          if new_day < num_days data
          then rbind (set_day patient_id new_day al) (\<lambda>al'. Inr (al', w1))
          else Inr (al, w1))
      else if operation = ''change_ward'' then
        (let compatible_wards = compatible_wards_for_patient data p in
         if length compatible_wards > 1 then
           rbind (py_lookup al patient_id) (\<lambda>a.
           rbind (list_remove (ward a) compatible_wards) (\<lambda>others.
           rbind (random_choice others w) (\<lambda>(new_ward, w1).
           rbind (set_ward patient_id new_ward al) (\<lambda>al'. Inr (al', w1)))))
         else Inr (al, w))
      else if operation = ''swap'' then
        rbind (random_choice (map fst al) w) (\<lambda>(patient_id2, w1).
          if patient_id \<noteq> patient_id2 then
            rbind (py_lookup al patient_id) (\<lambda>a1.
            rbind (py_lookup al patient_id2) (\<lambda>a2.
            rbind (set_day patient_id (day a2) al) (\<lambda>al1.
            rbind (set_day patient_id2 (day a1) al1) (\<lambda>al2. Inr (al2, w1)))))
          else Inr (al, w1))
      else Inr (al, w))"

definition get_neighbor ::
  "pa_data \<Rightarrow> real \<Rightarrow> real \<Rightarrow> solution \<Rightarrow> world \<Rightarrow> py_error + (solution \<times> world)" where
  "get_neighbor data lambda1 lambda2 sol w =
     rbind (random_choice (map fst (sol_allocation sol)) w) (\<lambda>(patient_id, w1).
     rbind (py_lookup (patients data) patient_id) (\<lambda>p.
     rbind (random_choice [''change_day'', ''change_ward'', ''swap''] w1) (\<lambda>(operation, w2).
     rbind (neighbor_change data patient_id p operation (sol_allocation sol) w2)
       (\<lambda>(al, w3).
     rbind (evaluate data (sol\<lparr>sol_allocation := al\<rparr>) lambda1 lambda2) (\<lambda>neighbor.
       Inr (neighbor, w3))))))"

text \<open>
  The difference of two objectives and the comparisons made with it, for floats that
  may be \<open>inf\<close>: \<open>inf - x\<close> is \<open>inf\<close>, \<open>x - inf\<close> is \<open>-inf\<close>, \<open>inf - inf\<close> is \<open>nan\<close>, and
  every comparison with \<open>nan\<close> is false.
\<close>

datatype fdelta = Delta real | DeltaPosInf | DeltaNegInf | DeltaNaN

fun objv_minus :: "objv \<Rightarrow> objv \<Rightarrow> fdelta" where
  "objv_minus (Fin a) (Fin b) = Delta (a - b)"
| "objv_minus (Fin a) Infinity = DeltaNegInf"
| "objv_minus Infinity (Fin b) = DeltaPosInf"
| "objv_minus Infinity Infinity = DeltaNaN"

fun objv_less :: "objv \<Rightarrow> objv \<Rightarrow> bool" where
  "objv_less (Fin a) (Fin b) = (a < b)"
| "objv_less (Fin a) Infinity = True"
| "objv_less Infinity b = False"

text \<open>\<open>delta < 0\<close>.\<close>

fun delta_negative :: "fdelta \<Rightarrow> bool" where
  "delta_negative (Delta x) = (x < 0)"
| "delta_negative DeltaNegInf = True"
| "delta_negative DeltaPosInf = False"
| "delta_negative DeltaNaN = False"

text \<open>
  \<open>u < math.exp(-delta / temperature)\<close> for a positive temperature: \<open>exp(-inf)\<close> is 0,
  \<open>exp(inf)\<close> is \<open>inf\<close>, \<open>exp(nan)\<close> is \<open>nan\<close>.
\<close>

fun below_exp :: "real \<Rightarrow> fdelta \<Rightarrow> real \<Rightarrow> bool" where
  "below_exp u (Delta x) temperature = (u < exp (- x / temperature))"
| "below_exp u DeltaPosInf temperature = (u < 0)"
| "below_exp u DeltaNegInf temperature = True"
| "below_exp u DeltaNaN temperature = False"

text \<open>
  The acceptance test of \<open>SimulatedAnnealing.solve\<close>,
  \<open>delta < 0 or (temperature > 0 and random.random() < math.exp(-delta / temperature))\<close>:
  the random number is drawn only when the first test fails and the temperature is
  positive.
\<close>

definition sa_accept :: "fdelta \<Rightarrow> real \<Rightarrow> world \<Rightarrow> bool \<times> world" where
  "sa_accept delta temperature w =
     (if delta_negative delta then (True, w)
      else if temperature > 0 then
        (case random_random w of (u, w') \<Rightarrow> (below_exp u delta temperature, w'))
      else (False, w))"

record sa_state =
  sa_current :: solution
  best_solution :: solution
  sa_temperature :: real
  sa_env :: world

text \<open>
  One pass of the loop of \<open>solve\<close>: neighbor, acceptance, update of the best solution when
  the accepted neighbor is strictly better, cooling, and the stopping test. The flag says
  whether the loop goes on. (Printing is not modelled.)
\<close>

definition sa_iter ::
  "pa_data \<Rightarrow> real \<Rightarrow> real \<Rightarrow> real \<Rightarrow> sa_state \<Rightarrow> py_error + (sa_state \<times> bool)" where
  "sa_iter data lambda1 lambda2 cooling_rate s =
     rbind (get_neighbor data lambda1 lambda2 (sa_current s) (sa_env s)) (\<lambda>(neighbor, w1).
       (let delta = objv_minus (sol_objective_value neighbor)
                      (sol_objective_value (sa_current s))
        in case sa_accept delta (sa_temperature s) w1 of (accepted, w2) \<Rightarrow>
          (let s1 = (if accepted then
                       s\<lparr>sa_current := neighbor,
                         best_solution :=
                           (if objv_less (sol_objective_value neighbor)
                                 (sol_objective_value (best_solution s))
                            then neighbor else best_solution s)\<rparr>
                     else s);
               temperature = sa_temperature s * cooling_rate
           in Inr (s1\<lparr>sa_temperature := temperature, sa_env := w2\<rparr>,
                   \<not> temperature < 1 / 100))))"

fun sa_run ::
  "pa_data \<Rightarrow> real \<Rightarrow> real \<Rightarrow> real \<Rightarrow> nat \<Rightarrow> sa_state \<Rightarrow> py_error + sa_state list" where
  "sa_run data lambda1 lambda2 cooling_rate 0 s = Inr [s]"
| "sa_run data lambda1 lambda2 cooling_rate (Suc n) s =
     rbind (sa_iter data lambda1 lambda2 cooling_rate s) (\<lambda>(s', go).
       if go then
         rbind (sa_run data lambda1 lambda2 cooling_rate n s') (\<lambda>states. Inr (s # states))
       else Inr [s, s'])"

text \<open>The dictionary returned by \<open>solve\<close> of Simulated Annealing and of Tabu Search.\<close>

record sa_result =
  r_objective_value :: objv
  r_solve_time :: real
  r_solution :: allocation
  r_feasible :: bool

definition sa_result_of :: "real \<Rightarrow> solution \<Rightarrow> sa_result" where
  "sa_result_of elapsed best =
     \<lparr>r_objective_value = sol_objective_value best, r_solve_time = elapsed,
      r_solution = sol_allocation best, r_feasible = sol_feasible best\<rparr>"

definition sa_init ::
  "pa_data \<Rightarrow> real \<Rightarrow> real \<Rightarrow> real \<Rightarrow> world \<Rightarrow> py_error + (real \<times> sa_state)" where
  "sa_init data lambda1 lambda2 initial_temp w =
     (case time_time w of (start_time, w0) \<Rightarrow>
        rbind (generate_initial_solution data lambda1 lambda2) (\<lambda>cur.
          Inr (start_time, \<lparr>sa_current = cur, best_solution = cur,
                            sa_temperature = initial_temp, sa_env = w0\<rparr>)))"

definition sa_solve ::
  "pa_data \<Rightarrow> real \<Rightarrow> real \<Rightarrow> nat \<Rightarrow> real \<Rightarrow> real \<Rightarrow> world \<Rightarrow> py_error + sa_result" where
  "sa_solve data lambda1 lambda2 max_iterations initial_temp cooling_rate w =
     rbind (sa_init data lambda1 lambda2 initial_temp w) (\<lambda>(start_time, s0).
     rbind (sa_run data lambda1 lambda2 cooling_rate max_iterations s0) (\<lambda>states.
       (case time_time (sa_env (last states)) of (t, w') \<Rightarrow>
          Inr (sa_result_of (t - start_time) (best_solution (last states))))))"

section \<open>Tabu Search\<close>

text \<open>
  The twenty neighbors of an iteration, generated one after the other from the current
  solution, and their stable sort by objective (\<open>inf\<close> last).
\<close>

fun gen_neighbors ::
  "pa_data \<Rightarrow> real \<Rightarrow> real \<Rightarrow> solution \<Rightarrow> nat \<Rightarrow> world \<Rightarrow> py_error + (solution list \<times> world)" where
  "gen_neighbors data lambda1 lambda2 cur 0 w = Inr ([], w)"
| "gen_neighbors data lambda1 lambda2 cur (Suc n) w =
     rbind (get_neighbor data lambda1 lambda2 cur w) (\<lambda>(neighbor, w1).
     rbind (gen_neighbors data lambda1 lambda2 cur n w1) (\<lambda>(rest, w2).
       Inr (neighbor # rest, w2)))"

fun objv_key :: "objv \<Rightarrow> bool \<times> real" where
  "objv_key (Fin x) = (False, x)"
| "objv_key Infinity = (True, 0)"

record tabu_state =
  tabu_current :: solution
  tabu_best :: solution
  tabu_list :: "allocation list"
  tabu_env :: world

text \<open>
  The choice among the sorted neighbors: the first one whose allocation is not in the
  tabu list, or that beats the best objective, becomes the current solution; its
  allocation is appended to the tabu list, the oldest entry is dropped when the list is
  longer than the tenure, and the best solution is replaced when the new current one is
  strictly better. The tabu list holds \<open>str(neighbor.allocation)\<close> in the source; the
  model holds the allocation itself, in dictionary order.
\<close>

fun tabu_pick :: "int \<Rightarrow> solution list \<Rightarrow> tabu_state \<Rightarrow> tabu_state" where
  "tabu_pick tabu_tenure [] s = s"
| "tabu_pick tabu_tenure (neighbor # rest) s =
     (let move = sol_allocation neighbor in
      if move \<notin> set (tabu_list s)
         \<or> objv_less (sol_objective_value neighbor) (sol_objective_value (tabu_best s))
      then
        (let appended = tabu_list s @ [move];
             kept = (if int (length appended) > tabu_tenure then tl appended else appended)
         in s\<lparr>tabu_current := neighbor, tabu_list := kept,
              tabu_best :=
                 (if objv_less (sol_objective_value neighbor)
                       (sol_objective_value (tabu_best s))
                  then neighbor else tabu_best s)\<rparr>)
      else tabu_pick tabu_tenure rest s)"

definition tabu_iter ::
  "pa_data \<Rightarrow> real \<Rightarrow> real \<Rightarrow> int \<Rightarrow> tabu_state \<Rightarrow> py_error + tabu_state" where
  "tabu_iter data lambda1 lambda2 tabu_tenure s =
     rbind (gen_neighbors data lambda1 lambda2 (tabu_current s) 20 (tabu_env s))
       (\<lambda>(neighbors, w1).
          Inr (tabu_pick tabu_tenure
                 (sort_key (\<lambda>x. objv_key (sol_objective_value x)) neighbors)
                 (s\<lparr>tabu_env := w1\<rparr>)))"

fun tabu_run ::
  "pa_data \<Rightarrow> real \<Rightarrow> real \<Rightarrow> int \<Rightarrow> nat \<Rightarrow> tabu_state \<Rightarrow> py_error + tabu_state list" where
  "tabu_run data lambda1 lambda2 tabu_tenure 0 s = Inr [s]"
| "tabu_run data lambda1 lambda2 tabu_tenure (Suc n) s =
     rbind (tabu_iter data lambda1 lambda2 tabu_tenure s) (\<lambda>s'.
     rbind (tabu_run data lambda1 lambda2 tabu_tenure n s') (\<lambda>states. Inr (s # states)))"

definition tabu_init ::
  "pa_data \<Rightarrow> real \<Rightarrow> real \<Rightarrow> world \<Rightarrow> py_error + (real \<times> tabu_state)" where
  "tabu_init data lambda1 lambda2 w =
     (case time_time w of (start_time, w0) \<Rightarrow>
        rbind (generate_initial_solution data lambda1 lambda2) (\<lambda>cur.
          Inr (start_time, \<lparr>tabu_current = cur, tabu_best = cur, tabu_list = [],
                            tabu_env = w0\<rparr>)))"

definition tabu_solve ::
  "pa_data \<Rightarrow> real \<Rightarrow> real \<Rightarrow> nat \<Rightarrow> int \<Rightarrow> world \<Rightarrow> py_error + sa_result" where
  "tabu_solve data lambda1 lambda2 max_iterations tabu_tenure w =
     rbind (tabu_init data lambda1 lambda2 w) (\<lambda>(start_time, s0).
     rbind (tabu_run data lambda1 lambda2 tabu_tenure max_iterations s0) (\<lambda>states.
       (case time_time (tabu_env (last states)) of (t, w') \<Rightarrow>
          Inr (sa_result_of (t - start_time) (tabu_best (last states))))))"

section \<open>The constructive heuristic\<close>

text \<open>
  The first-fit scan of \<open>greedy_feasible_by_window_strict\<close>, which the function runs
  before and after the repair: for every compatible ward, in order, the first day of
  the window inside the horizon on which every day of the stay inside the horizon has
  fewer occupied beds than the capacity.
\<close>

fun stay_fits ::
  "pa_data \<Rightarrow> allocation \<Rightarrow> string \<Rightarrow> int \<Rightarrow> int list \<Rightarrow> py_error + bool" where
  "stay_fits data alloc w cap [] = Inr True"
| "stay_fits data alloc w cap (day_check # rest) =
     rbind (count_beds_used_on_day data alloc w day_check) (\<lambda>used.
       if used \<ge> cap then Inr False else stay_fits data alloc w cap rest)"

fun first_fit_days ::
  "pa_data \<Rightarrow> allocation \<Rightarrow> string \<Rightarrow> int \<Rightarrow> int \<Rightarrow> int list \<Rightarrow> py_error + int option" where
  "first_fit_days data alloc w cap los_p [] = Inr None"
| "first_fit_days data alloc w cap los_p (d # ds) =
     rbind (stay_fits data alloc w cap (py_range d (min (d + los_p) (num_days data))))
       (\<lambda>ok. if ok then Inr (Some d) else first_fit_days data alloc w cap los_p ds)"

fun first_fit_wards ::
  "pa_data \<Rightarrow> allocation \<Rightarrow> patient_rec \<Rightarrow> string list
     \<Rightarrow> py_error + (string \<times> int) option" where
  "first_fit_wards data alloc p [] = Inr None"
| "first_fit_wards data alloc p (w # ws) =
     rbind (py_lookup (wards data) w) (\<lambda>ward_w.
     rbind (first_fit_days data alloc w (bed_capacity ward_w) (los p)
              (py_range (earliest p) (min (latest p + 1) (num_days data)))) (\<lambda>r.
       case r of
         Some d \<Rightarrow> Inr (Some (w, d))
       | None \<Rightarrow> first_fit_wards data alloc p ws))"

text \<open>
  \<open>_tiny_repair_shift_same_ward_day_forward\<close>: the patients of the ward whose stay covers
  the congested day, shuffled; at most \<open>max_shifts\<close> of them are tried; the first whose
  admission can move one day forward inside its window and the horizon, with the whole
  allocation passing the capacity check, is moved, and the result is \<open>True\<close>.
\<close>

fun repair_candidates ::
  "pa_data \<Rightarrow> string \<Rightarrow> int \<Rightarrow> allocation \<Rightarrow> py_error + string list" where
  "repair_candidates data ward_name congested_day [] = Inr []"
| "repair_candidates data ward_name congested_day ((pid, a) # rest) =
     (if ward a \<noteq> ward_name then repair_candidates data ward_name congested_day rest
      else rbind (py_lookup (patients data) pid) (\<lambda>p.
           rbind (repair_candidates data ward_name congested_day rest) (\<lambda>cs.
             Inr (if day a \<le> congested_day \<and> congested_day < day a + los p
                  then pid # cs else cs))))"

fun repair_try ::
  "pa_data \<Rightarrow> int \<Rightarrow> int \<Rightarrow> string list \<Rightarrow> allocation \<Rightarrow> py_error + (allocation \<times> bool)" where
  "repair_try data max_shifts tried [] alloc = Inr (alloc, False)"
| "repair_try data max_shifts tried (pid # rest) alloc =
     (if tried \<ge> max_shifts then Inr (alloc, False)
      else rbind (py_lookup (patients data) pid) (\<lambda>p.
           rbind (py_lookup alloc pid) (\<lambda>a.
             if day a + 1 \<le> min (latest p) (num_days data - 1) then
               rbind (set_day pid (day a + 1) alloc) (\<lambda>trial.
               rbind (feasible_after_change_beds data trial None) (\<lambda>ok.
                 if ok then Inr (trial, True)
                 else repair_try data max_shifts (tried + 1) rest alloc))
             else repair_try data max_shifts (tried + 1) rest alloc)))"

definition tiny_repair_shift_same_ward_day_forward ::
  "pa_data \<Rightarrow> allocation \<Rightarrow> string \<Rightarrow> int \<Rightarrow> int \<Rightarrow> world
     \<Rightarrow> py_error + (allocation \<times> bool \<times> world)" where
  "tiny_repair_shift_same_ward_day_forward data alloc ward_name congested_day max_shifts w =
     rbind (repair_candidates data ward_name congested_day alloc) (\<lambda>candidates.
       (case random_shuffle candidates w of (shuffled, w1) \<Rightarrow>
          rbind (repair_try data max_shifts 0 shuffled alloc) (\<lambda>(alloc', moved).
            Inr (alloc', moved, w1))))"

text \<open>
  The repair pass over the wards, the window days and the days of the stay: a repair is
  attempted at every congested day, and a successful one ends the innermost loop only.
\<close>

fun repair_checks ::
  "pa_data \<Rightarrow> string \<Rightarrow> int list \<Rightarrow> allocation \<Rightarrow> world \<Rightarrow> py_error + (allocation \<times> world)" where
  "repair_checks data w [] alloc wd = Inr (alloc, wd)"
| "repair_checks data w (day_check # rest) alloc wd =
     rbind (count_beds_used_on_day data alloc w day_check) (\<lambda>used.
     rbind (py_lookup (wards data) w) (\<lambda>ward_w.
       if used \<ge> bed_capacity ward_w then
         rbind (tiny_repair_shift_same_ward_day_forward data alloc w day_check 3 wd)
           (\<lambda>(alloc', moved, wd').
              if moved then Inr (alloc', wd') else repair_checks data w rest alloc' wd')
       else repair_checks data w rest alloc wd))"

fun repair_days ::
  "pa_data \<Rightarrow> string \<Rightarrow> int \<Rightarrow> int list \<Rightarrow> allocation \<Rightarrow> world
     \<Rightarrow> py_error + (allocation \<times> world)" where
  "repair_days data w los_p [] alloc wd = Inr (alloc, wd)"
| "repair_days data w los_p (d # ds) alloc wd =
     rbind (repair_checks data w (py_range d (min (d + los_p) (num_days data))) alloc wd)
       (\<lambda>(alloc', wd'). repair_days data w los_p ds alloc' wd')"

fun repair_wards ::
  "pa_data \<Rightarrow> patient_rec \<Rightarrow> string list \<Rightarrow> allocation \<Rightarrow> world
     \<Rightarrow> py_error + (allocation \<times> world)" where
  "repair_wards data p [] alloc wd = Inr (alloc, wd)"
| "repair_wards data p (w # ws) alloc wd =
     rbind (repair_days data w (los p)
              (py_range (earliest p) (min (latest p + 1) (num_days data))) alloc wd)
       (\<lambda>(alloc', wd'). repair_wards data p ws alloc' wd')"

text \<open>
  \<open>_score_trial\<close>: \<open>inf\<close> when the allocation with the patient placed fails the capacity
  check, the scalarized objective of that allocation otherwise. The fallback scan keeps
  the first (ward, day) with the lowest score below \<open>inf\<close>.
\<close>

definition score_trial ::
  "pa_data \<Rightarrow> allocation \<Rightarrow> string \<Rightarrow> string \<Rightarrow> int \<Rightarrow> real \<Rightarrow> real \<Rightarrow> py_error + objv" where
  "score_trial data alloc pid w d lambda1 lambda2 =
     (let trial = AList.update pid \<lparr>ward = w, day = d\<rparr> alloc in
      rbind (feasible_after_change_beds data alloc (Some (pid, w, d))) (\<lambda>ok.
        if \<not> ok then Inr Infinity
        else rbind (objective_value data trial lambda1 lambda2) (\<lambda>v. Inr (Fin v))))"

fun fallback_days ::
  "pa_data \<Rightarrow> allocation \<Rightarrow> string \<Rightarrow> string \<Rightarrow> int list \<Rightarrow> objv \<times> (string \<times> int) option
     \<Rightarrow> py_error + (objv \<times> (string \<times> int) option)" where
  "fallback_days data alloc pid w [] best = Inr best"
| "fallback_days data alloc pid w (d # ds) (best_score, best_wd) =
     rbind (score_trial data alloc pid w d (1 / 2) (1 / 2)) (\<lambda>score.
       if objv_less score best_score
       then fallback_days data alloc pid w ds (score, Some (w, d))
       else fallback_days data alloc pid w ds (best_score, best_wd))"

fun fallback_wards ::
  "pa_data \<Rightarrow> allocation \<Rightarrow> string \<Rightarrow> patient_rec \<Rightarrow> string list
     \<Rightarrow> objv \<times> (string \<times> int) option \<Rightarrow> py_error + (objv \<times> (string \<times> int) option)" where
  "fallback_wards data alloc pid p [] best = Inr best"
| "fallback_wards data alloc pid p (w # ws) best =
     rbind (fallback_days data alloc pid w
              (py_range (earliest p) (min (latest p + 1) (num_days data))) best)
       (\<lambda>best'. fallback_wards data alloc pid p ws best')"

text \<open>
  The body of the loop over the patients: first fit; if that fails, the repair pass and
  a second first fit; if that fails, the fallback scan; if that gives nothing,
  \<open>RuntimeError\<close>, whose message names the patient.
\<close>

definition place_patient ::
  "pa_data \<Rightarrow> allocation \<Rightarrow> string \<times> patient_rec \<Rightarrow> world
     \<Rightarrow> py_error + (allocation \<times> world)" where
  "place_patient data alloc entry wd =
     (case entry of (pid, p) \<Rightarrow>
       (let wards_p = compatible_wards_for_patient data p in
        rbind (first_fit_wards data alloc p wards_p) (\<lambda>r1.
          case r1 of
            Some (w, d) \<Rightarrow> Inr (AList.update pid \<lparr>ward = w, day = d\<rparr> alloc, wd)
          | None \<Rightarrow>
              rbind (repair_wards data p wards_p alloc wd) (\<lambda>(alloc2, wd2).
              rbind (first_fit_wards data alloc2 p wards_p) (\<lambda>r2.
                case r2 of
                  Some (w, d) \<Rightarrow> Inr (AList.update pid \<lparr>ward = w, day = d\<rparr> alloc2, wd2)
                | None \<Rightarrow>
                    rbind (fallback_wards data alloc2 pid p wards_p (Infinity, None))
                      (\<lambda>(best_score, best_wd).
                         case best_wd of
                           Some (w, d) \<Rightarrow>
                             Inr (AList.update pid \<lparr>ward = w, day = d\<rparr> alloc2, wd2)
                         | None \<Rightarrow> Inl (RuntimeError pid)))))))"

fun greedy_loop ::
  "pa_data \<Rightarrow> (string \<times> patient_rec) list \<Rightarrow> allocation \<Rightarrow> world
     \<Rightarrow> py_error + (allocation \<times> world)" where
  "greedy_loop data [] alloc wd = Inr (alloc, wd)"
| "greedy_loop data (entry # rest) alloc wd =
     rbind (place_patient data alloc entry wd) (\<lambda>(alloc', wd').
       greedy_loop data rest alloc' wd')"

definition patients_order :: "pa_data \<Rightarrow> (string \<times> patient_rec) list" where
  "patients_order data =
     sort_key (\<lambda>(pid, p). (latest p - earliest p, earliest p, - los p)) (patients data)"

definition greedy_feasible_by_window_strict :: "pa_data \<Rightarrow> world \<Rightarrow> py_error + allocation" where
  "greedy_feasible_by_window_strict data wd =
     rbind (greedy_loop data (patients_order data) [] wd) (\<lambda>(alloc, wd'). Inr alloc)"

section \<open>Invariants of the ILS and VNS runs\<close>

text \<open>
  The best allocation is sound when it passes the capacity check and the best value is its
  objective; the references are sound when they point to allocated objects and, in ILS,
  \<open>current\<close> and the best are different objects. In an ILS run the stagnation counter
  stays below the limit between iterations; what an ILS run prints is tracked by
  \<open>perturbations_fixed\<close>: every perturbation line reports the intensity 1/5 and the early
  stop is never printed.
\<close>

definition perturbations_fixed :: "event list \<Rightarrow> bool" where
  "perturbations_fixed out \<longleftrightarrow>
     list_all (\<lambda>e. case e of Perturbazione i x \<Rightarrow> x = 1 / 5
                            | StoppingEarly \<Rightarrow> False
                            | _ \<Rightarrow> True) out"

definition ils_best_ok :: "pa_data \<Rightarrow> real \<Rightarrow> real \<Rightarrow> ils_state \<Rightarrow> bool" where
  "ils_best_ok data lambda1 lambda2 s \<longleftrightarrow>
     feasible_after_change_beds data (cells (heap s) (best_feasible_allocation s)) None = Inr True
     \<and> objective_value data (cells (heap s) (best_feasible_allocation s)) lambda1 lambda2
         = Inr (best_feasible_value s)"

definition ils_refs_ok :: "ils_state \<Rightarrow> bool" where
  "ils_refs_ok s \<longleftrightarrow>
     current s < fresh (heap s) \<and> best_feasible_allocation s < fresh (heap s)
     \<and> current s \<noteq> best_feasible_allocation s"

definition ils_inv :: "pa_data \<Rightarrow> real \<Rightarrow> real \<Rightarrow> ils_state \<Rightarrow> bool" where
  "ils_inv data lambda1 lambda2 s \<longleftrightarrow>
     ils_refs_ok s \<and> ils_best_ok data lambda1 lambda2 s
     \<and> no_improve_counter s < STAGNATION_LIMIT \<and> perturbations_fixed (printed s)"

text \<open>The best allocation and its value, as a pair.\<close>

definition ils_best :: "ils_state \<Rightarrow> allocation \<times> real" where
  "ils_best s = (cells (heap s) (best_feasible_allocation s), best_feasible_value s)"

definition vns_best :: "vns_state \<Rightarrow> allocation \<times> real" where
  "vns_best s = (cells (vheap s) (vbest_feasible_allocation s), vbest_feasible_value s)"

definition vns_best_ok :: "pa_data \<Rightarrow> real \<Rightarrow> real \<Rightarrow> vns_state \<Rightarrow> bool" where
  "vns_best_ok data lambda1 lambda2 s \<longleftrightarrow>
     feasible_after_change_beds data (cells (vheap s) (vbest_feasible_allocation s)) None = Inr True
     \<and> objective_value data (cells (vheap s) (vbest_feasible_allocation s)) lambda1 lambda2
         = Inr (vbest_feasible_value s)"

definition vns_refs_ok :: "vns_state \<Rightarrow> bool" where
  "vns_refs_ok s \<longleftrightarrow>
     vcurrent s < fresh (vheap s) \<and> vbest_feasible_allocation s < fresh (vheap s)"

definition vns_inv :: "pa_data \<Rightarrow> real \<Rightarrow> real \<Rightarrow> vns_state \<Rightarrow> bool" where
  "vns_inv data lambda1 lambda2 s \<longleftrightarrow>
     vns_refs_ok s \<and> vns_best_ok data lambda1 lambda2 s
     \<and> 1 \<le> k_index s \<and> k_index s \<le> K_MAX
     \<and> cells (vheap s) (vcurrent s) = cells (vheap s) (vbest_feasible_allocation s)"

text \<open>The acceptance condition of VNS on a candidate allocation, given the best value.\<close>

definition vns_improves :: "pa_data \<Rightarrow> real \<Rightarrow> real \<Rightarrow> allocation \<Rightarrow> real \<Rightarrow> bool" where
  "vns_improves data lambda1 lambda2 candidate best_value \<longleftrightarrow>
     feasible_after_change_beds data candidate None = Inr True
     \<and> (case objective_value data candidate lambda1 lambda2 of
           Inr v \<Rightarrow> v + eps < best_value
         | Inl e \<Rightarrow> False)"

section \<open>A one-patient instance and a world\<close>

text \<open>
  One patient with window [0, 1], one ward, two days; \<open>tiny_late\<close> admits the patient
  on day 1, with objective 6, where day 0 gives 11/2. \<open>demo_start\<close> is a feasible
  allocation of the three-patient instance. In \<open>demo_world\<close> every random draw is 0 and
  the clock stands still.
\<close>

definition demo_start :: allocation where
  "demo_start = [(''p1'', \<lparr>ward = ''A'', day = 1\<rparr>),
                 (''p2'', \<lparr>ward = ''A'', day = 0\<rparr>),
                 (''p3'', \<lparr>ward = ''B'', day = 0\<rparr>)]"

definition demo_world :: world where
  "demo_world = \<lparr>rand = (\<lambda>i. 0), clock = (\<lambda>i. 0)\<rparr>"

definition tiny_data :: pa_data where
  "tiny_data = \<lparr>
     patients = [(''p1'', \<lparr>specialization = ''s'', earliest = 0, latest = 1, los = 1,
                   surgery_duration = 10, workload_per_day = [1]\<rparr>)],
     wards = [(''W'', \<lparr>bed_capacity = 1, workload_capacity = 1, major_specialization = ''s'',
                minor_specializations = [], carryover_patients = [0, 0],
                carryover_workload = [0, 0]\<rparr>)],
     specialisms = [(''s'', \<lparr>ot_time = [10, 10], workload_factor = 1\<rparr>)],
     num_days = 2,
     weight_overtime = 1, weight_undertime = 1, weight_delay = 1\<rparr>"

definition tiny_late :: allocation where
  "tiny_late = [(''p1'', \<lparr>ward = ''W'', day = 1\<rparr>)]"




section \<open>Properties of solutions and further inputs\<close>

text \<open>
  A solution is consistent when its feasibility flag is true exactly when its objective
  is finite. \<open>uphill_world\<close> makes the first neighbor of Simulated Annealing a change of
  day to day 1 and the acceptance draw 0. \<open>saturated_data\<close> is the instance with three
  patients of stay 1 and window [0, 0], one compatible ward with 2 beds, one day.
\<close>

definition consistent :: "solution \<Rightarrow> bool" where
  "consistent sol \<longleftrightarrow> (sol_feasible sol \<longleftrightarrow> sol_objective_value sol \<noteq> Infinity)"

text \<open>The best solution is kept, or replaced by one with a strictly lower objective.\<close>

definition improves_on :: "solution \<Rightarrow> solution \<Rightarrow> bool" where
  "improves_on b a \<longleftrightarrow>
     b = a \<or> objv_less (sol_objective_value b) (sol_objective_value a)"

text \<open>The objectives in extended order: \<open>b \<le> a\<close>.\<close>

fun objv_le :: "objv \<Rightarrow> objv \<Rightarrow> bool" where
  "objv_le (Fin b) (Fin a) = (b \<le> a)"
| "objv_le (Fin b) Infinity = True"
| "objv_le Infinity (Fin a) = False"
| "objv_le Infinity Infinity = True"


definition saturated_data :: pa_data where
  "saturated_data = \<lparr>
     patients =
       [(''p1'', \<lparr>specialization = ''s'', earliest = 0, latest = 0, los = 1,
                 surgery_duration = 10, workload_per_day = [1]\<rparr>),
        (''p2'', \<lparr>specialization = ''s'', earliest = 0, latest = 0, los = 1,
                 surgery_duration = 10, workload_per_day = [1]\<rparr>),
        (''p3'', \<lparr>specialization = ''s'', earliest = 0, latest = 0, los = 1,
                 surgery_duration = 10, workload_per_day = [1]\<rparr>)],
     wards = [(''W'', \<lparr>bed_capacity = 2, workload_capacity = 1, major_specialization = ''s'',
                minor_specializations = [], carryover_patients = [0],
                carryover_workload = [0]\<rparr>)],
     specialisms = [(''s'', \<lparr>ot_time = [30], workload_factor = 1\<rparr>)],
     num_days = 1,
     weight_overtime = 1, weight_undertime = 1, weight_delay = 1\<rparr>"

section \<open>Saturation of the constructive heuristic\<close>

text \<open>
  \<open>no_rt\<close> holds of a result that is not the saturation error. \<open>unplaceable\<close> is the path
  of the loop body that ends in \<open>raise RuntimeError\<close>: the first fit finds nothing, the
  repair pass returns, the second first fit finds nothing, and the fallback scan keeps
  no (ward, day).
\<close>

definition no_rt :: "py_error + 'a \<Rightarrow> bool" where
  "no_rt m = (case m of Inl (RuntimeError x) \<Rightarrow> False | _ \<Rightarrow> True)"

definition unplaceable :: "pa_data \<Rightarrow> allocation \<Rightarrow> string \<times> patient_rec \<Rightarrow> world \<Rightarrow> bool" where
  "unplaceable data alloc entry wd =
     (case entry of (pid, p) \<Rightarrow>
       (let wards_p = compatible_wards_for_patient data p in
        first_fit_wards data alloc p wards_p = Inr None
        \<and> (case repair_wards data p wards_p alloc wd of
             Inl e \<Rightarrow> False
           | Inr (alloc2, wd2) \<Rightarrow>
               first_fit_wards data alloc2 p wards_p = Inr None
               \<and> (case fallback_wards data alloc2 pid p wards_p (Infinity, None) of
                    Inl e \<Rightarrow> False
                  | Inr (best_score, best_wd) \<Rightarrow> best_wd = None))))"

text \<open>
  The specification's words for a placement: the patient fits in a ward on an admission
  day when every day of the stay inside the horizon has fewer occupied beds than the
  ward's capacity; there is no placement when the patient fits in no compatible ward on
  no day of the window inside the horizon. Windows are expected to start at day 0 or
  later, and the allocation under construction to hold patients of the instance only.
\<close>

definition fits :: "pa_data \<Rightarrow> allocation \<Rightarrow> patient_rec \<Rightarrow> string \<Rightarrow> int \<Rightarrow> bool" where
  "fits data alloc p w d =
     (case map_of (wards data) w of
        None \<Rightarrow> False
      | Some wr \<Rightarrow>
          list_all (\<lambda>dd. occupancy data alloc w wr dd < bed_capacity wr)
            (py_range d (min (d + los p) (num_days data))))"

definition no_placement :: "pa_data \<Rightarrow> allocation \<Rightarrow> patient_rec \<Rightarrow> bool" where
  "no_placement data alloc p =
     list_all (\<lambda>w. list_all (\<lambda>d. \<not> fits data alloc p w d)
                     (py_range (earliest p) (min (latest p + 1) (num_days data))))
       (compatible_wards_for_patient data p)"

definition windows_nonneg :: "pa_data \<Rightarrow> bool" where
  "windows_nonneg data \<longleftrightarrow> list_all (\<lambda>(pid, p). 0 \<le> earliest p) (patients data)"

abbreviation keys_ok :: "pa_data \<Rightarrow> allocation \<Rightarrow> bool" where
  "keys_ok data alloc \<equiv> fst ` set alloc \<subseteq> fst ` set (patients data)"

text \<open>
  The literal instance of the saturation scenario after its first two patients are
  placed: both beds of the ward are taken on day 0.
\<close>

definition saturated_two :: allocation where
  "saturated_two = [(''p1'', \<lparr>ward = ''W'', day = 0\<rparr>), (''p2'', \<lparr>ward = ''W'', day = 0\<rparr>)]"

definition saturated_patient :: patient_rec where
  "saturated_patient = \<lparr>specialization = ''s'', earliest = 0, latest = 0, los = 1,
                 surgery_duration = 10, workload_per_day = [1]\<rparr>"

section \<open>Properties of the evaluator\<close>

lemma py_lookup_Inr: "map_of d k = Some v \<Longrightarrow> py_lookup d k = Inr v"
  by (simp add: py_lookup_def)

lemma py_lookup_mem: "k \<in> fst ` set d \<Longrightarrow> \<exists>v. py_lookup d k = Inr v \<and> map_of d k = Some v"
  by (cases "map_of d k") (auto simp: py_lookup_def map_of_eq_None_iff)

lemma py_index_Inr: "0 \<le> i \<Longrightarrow> i < int (length xs) \<Longrightarrow> py_index xs i = Inr (xs ! nat i)"
  by (simp add: py_index_def)

lemma set_py_range: "set (py_range a b) = {d. a \<le> d \<and> d < b}"
  by (auto simp: py_range_def)

lemma count_beds_loop_eq:
  "fst ` set allocation \<subseteq> fst ` set (patients data) \<Longrightarrow>
   count_beds_loop data wname d allocation used
     = Inr (used + int (length (filter (stay_covers data wname d) allocation)))"
proof (induction allocation arbitrary: used)
  case Nil
  then show ?case by simp
next
  case (Cons e rest)
  obtain pid a where e: "e = (pid, a)" by (cases e)
  from Cons.prems e have "pid \<in> fst ` set (patients data)" by auto
  then obtain p where p: "py_lookup (patients data) pid = Inr p" "map_of (patients data) pid = Some p"
    using py_lookup_mem by blast
  from Cons.prems have sub: "fst ` set rest \<subseteq> fst ` set (patients data)" by auto
  show ?case using Cons.IH[OF sub] p e
    by (simp add: stay_covers_def)
qed

lemma count_beds_used_eq:
  assumes "distinct (map fst (wards data))" "(wname, w) \<in> set (wards data)"
    "0 \<le> d" "d < int (length (carryover_patients w))"
    "fst ` set allocation \<subseteq> fst ` set (patients data)"
  shows "count_beds_used_on_day data allocation wname d = Inr (occupancy data allocation wname w d)"
proof -
  have "map_of (wards data) wname = Some w" using assms(1,2) by simp
  then have "py_lookup (wards data) wname = Inr w" by (rule py_lookup_Inr)
  then show ?thesis
    using assms(3,4,5)
    by (simp add: count_beds_used_on_day_def py_index_Inr count_beds_loop_eq occupancy_def)
qed


lemma feasible_days_eq:
  assumes "distinct (map fst (wards data))" "(wname, w) \<in> set (wards data)"
    "fst ` set allocation \<subseteq> fst ` set (patients data)"
  shows "\<forall>d \<in> set ds. 0 \<le> d \<and> d < int (length (carryover_patients w)) \<Longrightarrow>
    feasible_days data allocation wname cap ds
      = Inr (list_all (\<lambda>d. occupancy data allocation wname w d \<le> cap) ds)"
proof (induction ds)
  case Nil
  then show ?case by simp
next
  case (Cons d ds)
  have "count_beds_used_on_day data allocation wname d = Inr (occupancy data allocation wname w d)"
    using Cons.prems assms by (intro count_beds_used_eq) auto
  then show ?case using Cons by auto
qed


lemma feasible_wards_eq:
  assumes "carry_ok data" "fst ` set allocation \<subseteq> fst ` set (patients data)"
  shows "set ws \<subseteq> set (wards data) \<Longrightarrow>
    feasible_wards data allocation ws
      = Inr (list_all (\<lambda>(wname, w). list_all (\<lambda>d. occupancy data allocation wname w d \<le> bed_capacity w)
                (py_range 0 (num_days data))) ws)"
proof (induction ws)
  case Nil
  then show ?case by simp
next
  case (Cons e ws)
  obtain wname w where e: "e = (wname, w)" by (cases e)
  have mem: "(wname, w) \<in> set (wards data)" using Cons.prems e by auto
  have len: "num_days data \<le> int (length (carryover_patients w))"
    using assms(1) mem by (auto simp: carry_ok_def list_all_iff)
  have "feasible_days data allocation wname (bed_capacity w) (py_range 0 (num_days data))
      = Inr (list_all (\<lambda>d. occupancy data allocation wname w d \<le> bed_capacity w) (py_range 0 (num_days data)))"
    using assms mem len by (intro feasible_days_eq) (auto simp: carry_ok_def set_py_range)
  then show ?case using Cons e by simp
qed






lemma wf_ward:
  assumes "wf_data data" "(wname, w) \<in> set (wards data)"
  shows "num_days data \<le> int (length (carryover_patients w))"
    and "num_days data \<le> int (length (carryover_workload w))"
    and "set (minor_specializations w) \<subseteq> fst ` set (specialisms data)"
  using assms by (auto simp: wf_data_def list_all_iff)

lemma wf_specialism:
  assumes "wf_data data" "map_of (specialisms data) sname = Some s"
  shows "num_days data \<le> int (length (ot_time s))"
  using assms map_of_SomeD[OF assms(2)] by (auto simp: wf_data_def list_all_iff)

lemma wf_carry_ok: "wf_data data \<Longrightarrow> carry_ok data"
  by (auto simp: wf_data_def carry_ok_def list_all_iff)


lemma delays_loop_total:
  "fst ` set allocation \<subseteq> fst ` set (patients data) \<Longrightarrow>
   \<exists>v. delays_loop data allocation ac = Inr v"
proof (induction allocation arbitrary: ac)
  case Nil
  then show ?case by simp
next
  case (Cons e rest)
  obtain pid a where e: "e = (pid, a)" by (cases e)
  from Cons.prems e obtain p where "py_lookup (patients data) pid = Inr p"
    using py_lookup_mem[of pid "patients data"] by auto
  then show ?case using Cons e by simp
qed

lemma ot_used_loop_total:
  "fst ` set allocation \<subseteq> fst ` set (patients data) \<Longrightarrow>
   \<exists>v. ot_used_loop data allocation spec d ac = Inr v"
proof (induction allocation arbitrary: ac)
  case Nil
  then show ?case by simp
next
  case (Cons e rest)
  obtain pid a where e: "e = (pid, a)" by (cases e)
  from Cons.prems e obtain p where "py_lookup (patients data) pid = Inr p"
    using py_lookup_mem[of pid "patients data"] by auto
  then show ?case using Cons e by simp
qed

lemma ot_days_total:
  assumes "wf_data data" "fst ` set allocation \<subseteq> fst ` set (patients data)"
    "spec \<in> fst ` set (specialisms data)"
  shows "\<forall>d \<in> set ds. 0 \<le> d \<and> d < num_days data \<Longrightarrow>
    \<exists>r. ot_days data allocation spec ds ac = Inr r"
proof (induction ds arbitrary: ac)
  case Nil
  then show ?case by (cases ac) auto
next
  case (Cons d ds)
  obtain ovt undt m where ac: "ac = (ovt, undt, m)" by (cases ac)
  obtain used where u: "compute_ot_used_by_spec_day data allocation spec d = Inr used"
    using ot_used_loop_total[OF assms(2), where spec = spec and d = d and ac = 0]
    unfolding compute_ot_used_by_spec_day_def by blast
  obtain s where s: "py_lookup (specialisms data) spec = Inr s" "map_of (specialisms data) spec = Some s"
    using py_lookup_mem[OF assms(3)] by blast
  have "d < int (length (ot_time s))" "0 \<le> d"
    using wf_specialism[OF assms(1) s(2)] Cons.prems by auto
  then have i: "py_index (ot_time s) d = Inr (ot_time s ! nat d)" by (simp add: py_index_Inr)
  have rest: "\<forall>d \<in> set ds. 0 \<le> d \<and> d < num_days data" using Cons.prems by simp
  show ?case using Cons.IH[OF rest] u s(1) i ac by simp
qed

lemma ot_specs_total:
  assumes "wf_data data" "fst ` set allocation \<subseteq> fst ` set (patients data)"
  shows "set specs \<subseteq> fst ` set (specialisms data) \<Longrightarrow>
    \<exists>r. ot_specs data allocation specs ac = Inr r"
proof (induction specs arbitrary: ac)
  case Nil
  then show ?case by (cases ac) auto
next
  case (Cons spec specs)
  have "spec \<in> fst ` set (specialisms data)" using Cons.prems by simp
  then obtain r where "ot_days data allocation spec (py_range 0 (num_days data)) ac = Inr r"
    using ot_days_total[OF assms, where spec = spec and ds = "py_range 0 (num_days data)" and ac = ac]
    by (auto simp: set_py_range)
  then show ?case using Cons by simp
qed

lemma workload_patients_total:
  assumes "fst ` set allocation \<subseteq> fst ` set (patients data)"
    "set (minor_specializations w) \<subseteq> fst ` set (specialisms data)"
  shows "\<exists>v. workload_patients data wname w d allocation ac = Inr v"
  using assms(1)
proof (induction allocation arbitrary: ac)
  case Nil
  then show ?case by simp
next
  case (Cons e rest)
  obtain pid a where e: "e = (pid, a)" by (cases e)
  from Cons.prems e obtain p where p: "py_lookup (patients data) pid = Inr p"
    using py_lookup_mem[of pid "patients data"] by auto
  have sub: "fst ` set rest \<subseteq> fst ` set (patients data)" using Cons.prems by auto
  note IH = Cons.IH[OF sub]
  show ?case
  proof (cases "ward a \<noteq> wname")
    case True
    then show ?thesis using IH e by simp
  next
    case False
    show ?thesis
    proof (cases "day a \<le> d \<and> d < day a + los p \<and> d - day a < int (length (workload_per_day p))")
      case inr: True
      then have i: "py_index (workload_per_day p) (d - day a) = Inr (workload_per_day p ! nat (d - day a))"
        by (simp add: py_index_Inr)
      show ?thesis
      proof (cases "specialization p \<noteq> major_specialization w
                  \<and> specialization p \<in> set (minor_specializations w)")
        case True
        then obtain s where "py_lookup (specialisms data) (specialization p) = Inr s"
          using py_lookup_mem[of "specialization p" "specialisms data"] assms(2) by blast
        then show ?thesis using IH e p False inr i True by (simp add: Let_def)
      next
        case nm: False
        then show ?thesis using IH e p False inr i by (auto simp add: Let_def)
      qed
    next
      case False2: False
      then show ?thesis using IH e p False by (auto simp add: Let_def)
    qed
  qed
qed

lemma workload_days_total:
  assumes "fst ` set allocation \<subseteq> fst ` set (patients data)"
    "set (minor_specializations w) \<subseteq> fst ` set (specialisms data)"
  shows "\<forall>d \<in> set ds. 0 \<le> d \<and> d < int (length (carryover_workload w)) \<Longrightarrow>
    \<exists>r. workload_days data allocation wname w ds xz = Inr r"
proof (induction ds arbitrary: xz)
  case Nil
  then show ?case by simp
next
  case (Cons d ds)
  obtain x z where xz: "xz = (x, z)" by (cases xz)
  have i: "py_index (carryover_workload w) d = Inr (carryover_workload w ! nat d)"
    using Cons.prems by (simp add: py_index_Inr)
  obtain t where t: "workload_patients data wname w d allocation (carryover_workload w ! nat d) = Inr t"
    using workload_patients_total[OF assms] by blast
  have rest: "\<forall>d \<in> set ds. 0 \<le> d \<and> d < int (length (carryover_workload w))"
    using Cons.prems by simp
  show ?case using Cons.IH[OF rest] i t xz by (simp add: Let_def)
qed

lemma workload_wards_total:
  assumes "wf_data data" "fst ` set allocation \<subseteq> fst ` set (patients data)"
  shows "set ws \<subseteq> set (wards data) \<Longrightarrow>
    \<exists>r. workload_wards data allocation ws xz = Inr r"
proof (induction ws arbitrary: xz)
  case Nil
  then show ?case by simp
next
  case (Cons e ws)
  obtain wname w where e: "e = (wname, w)" by (cases e)
  have mem: "(wname, w) \<in> set (wards data)" using Cons.prems e by auto
  obtain r where "workload_days data allocation wname w (py_range 0 (num_days data)) xz = Inr r"
    using workload_days_total[OF assms(2) wf_ward(3)[OF assms(1) mem], where ds = "py_range 0 (num_days data)" and wname = wname and xz = xz]
      wf_ward(2)[OF assms(1) mem]
    by (auto simp: set_py_range)
  then show ?case using Cons e by simp
qed

lemma compute_objective_components_total:
  assumes "wf_data data" "fst ` set allocation \<subseteq> fst ` set (patients data)"
  shows "\<exists>v. compute_objective_components data allocation = Inr v"
proof -
  obtain dl where dl: "delays_loop data allocation 0 = Inr dl"
    using delays_loop_total[OF assms(2)] by blast
  obtain ot where ot: "ot_specs data allocation (map fst (specialisms data)) (0, 0, []) = Inr ot"
    using ot_specs_total[OF assms, where specs = "map fst (specialisms data)" and ac = "(0, 0, [])"] by auto
  obtain xz where xz: "compute_workload_normalized_and_z data allocation = Inr xz"
    using workload_wards_total[OF assms, where ws = "wards data" and xz = "([], 0)"]
    by (auto simp: compute_workload_normalized_and_z_def)
  show ?thesis using dl ot xz
    by (auto simp: compute_objective_components_def split: prod.splits)
qed

lemma objective_value_total:
  assumes "wf_data data" "fst ` set allocation \<subseteq> fst ` set (patients data)"
  shows "\<exists>v. objective_value data allocation lambda1 lambda2 = Inr v"
  using compute_objective_components_total[OF assms]
  by (auto simp: objective_value_def Let_def split: prod.splits)











section \<open>Rules for running the model on concrete inputs\<close>

text \<open>
  The simplifier evaluates a run when it is told to reduce the first computation of a
  sequence before looking at the rest, and to step through loops counted by numerals.
\<close>

lemmas search_defs =
  ils_init_def ils_iter_def ils_body_def ils_accept_def ils_consider_def ils_new_best_def
  ils_stagnation_def ils_local_search_fast_def local_search_fast_def
  ils_solve_def ils_finish_def vns_solve_def vns_finish_def perturbation_mixed_def
  perturb_intensity_def PERTURB_BASE_RATIO_def PERTURB_MAX_RATIO_def
  vns_init_def vns_iter_def vns_body_def vns_candidate_def vns_consider_def vns_new_best_def
  vns_wrap_def vns_progress_def vns_local_search_fast_def
  shake_def shake_N1_def shake_N2_def shake_N3_def shake_N4_def
  time_time_def next_rand_def randbelow_def random_choice_def random_sample_def
  random_randint_def random_random_def deepcopy_def alloc_new_def write_cell_def
  set_day_def set_ward_def emit_def eps_def
  feasible_after_change_beds_def count_beds_used_on_day_def py_lookup_def py_index_def
  py_range_def objective_value_def objective_value_penalized_def
  compute_objective_components_def compute_workload_normalized_and_z_def
  compute_ot_used_by_spec_day_def bed_capacity_violations_def
  compatible_wards_for_patient_def STAGNATION_LIMIT_def K_MAX_def upto.simps

lemma ls_rounds_numeral:
  "ls_rounds data lambda1 lambda2 pw ndays num_patients_to_check t0 max_time_seconds (numeral k)
     cur curr_val w =
     (case time_time w of (t, w1) \<Rightarrow>
        if t - t0 > max_time_seconds then Inr (cur, curr_val, w1)
        else
          rbind (random_sample (map fst (patients data))
                   (min num_patients_to_check (int (length (patients data)))) w1)
            (\<lambda>(pids_sample, w2).
          rbind (ls_pids data lambda1 lambda2 pw ndays t0 max_time_seconds pids_sample
                   cur curr_val w2) (\<lambda>(cur', curr_val', improved, w3).
            if \<not> improved then Inr (cur', curr_val', w3)
            else ls_rounds data lambda1 lambda2 pw ndays num_patients_to_check t0
                   max_time_seconds (pred_numeral k) cur' curr_val' w3)))"
  by (simp add: numeral_eq_Suc)

lemma sample_loop_numeral:
  "sample_loop pool (numeral k) w =
     (case randbelow (length pool) w of (j, w1) \<Rightarrow>
        (case sample_loop (butlast (pool[j := last pool])) (pred_numeral k) w1 of (rest, w2) \<Rightarrow>
           (pool ! j # rest, w2)))"
  by (simp add: numeral_eq_Suc)

lemma sample_loop_1:
  "sample_loop pool 1 w =
     (case randbelow (length pool) w of (j, w1) \<Rightarrow> ([pool ! j], w1))"
  using sample_loop.simps(2)[of pool 0 w] by (simp split: prod.splits)

lemmas eval_extra = ls_rounds_numeral sample_loop_numeral sample_loop_1

lemma rbind_weak_cong: "m = m' \<Longrightarrow> rbind m f = rbind m' f"
  by simp

lemma demo_data_fields:
  "patients demo_data = [(''p1'', \<lparr>specialization = ''card'', earliest = 0, latest = 1, los = 2,
                 surgery_duration = 60, workload_per_day = [1, 2]\<rparr>),
        (''p2'', \<lparr>specialization = ''card'', earliest = 0, latest = 0, los = 1,
                 surgery_duration = 30, workload_per_day = [1]\<rparr>),
        (''p3'', \<lparr>specialization = ''orth'', earliest = 0, latest = 2, los = 1,
                 surgery_duration = 45, workload_per_day = []\<rparr>)]"
  "wards demo_data = [(''A'', \<lparr>bed_capacity = 1, workload_capacity = 4, major_specialization = ''card'',
                minor_specializations = [''orth''], carryover_patients = [0, 0, 0],
                carryover_workload = [1, 1, 1]\<rparr>),
        (''B'', \<lparr>bed_capacity = 2, workload_capacity = 0, major_specialization = ''orth'',
                minor_specializations = [], carryover_patients = [1, 0, 0],
                carryover_workload = [0, 0, 0]\<rparr>)]"
  "specialisms demo_data = [(''card'', \<lparr>ot_time = [60, 60, 60], workload_factor = 1\<rparr>),
        (''orth'', \<lparr>ot_time = [30, 30, 30], workload_factor = 1 / 2\<rparr>)]"
  "num_days demo_data = 3" "weight_overtime demo_data = 1" "weight_undertime demo_data = 1"
  "weight_delay demo_data = 1"
  by (simp_all add: demo_data_def)



lemma tiny_data_fields:
  "patients tiny_data = [(''p1'', \<lparr>specialization = ''s'', earliest = 0, latest = 1, los = 1,
                   surgery_duration = 10, workload_per_day = [1]\<rparr>)]"
  "wards tiny_data = [(''W'', \<lparr>bed_capacity = 1, workload_capacity = 1, major_specialization = ''s'',
                minor_specializations = [], carryover_patients = [0, 0],
                carryover_workload = [0, 0]\<rparr>)]"
  "specialisms tiny_data = [(''s'', \<lparr>ot_time = [10, 10], workload_factor = 1\<rparr>)]"
  "num_days tiny_data = 2" "weight_overtime tiny_data = 1" "weight_undertime tiny_data = 1"
  "weight_delay tiny_data = 1"
  by (simp_all add: tiny_data_def)


lemma ils_run_numeral:
  "ils_run data lambda1 lambda2 pw verbose t0 max_time_seconds iteration (numeral k) s =
     rbind (ils_iter data lambda1 lambda2 pw verbose t0 max_time_seconds iteration s)
       (\<lambda>(s', go).
          if go then
            rbind (ils_run data lambda1 lambda2 pw verbose t0 max_time_seconds
                     (Suc iteration) (pred_numeral k) s') (\<lambda>states. Inr (s # states))
          else Inr [s, s'])"
  by (simp add: numeral_eq_Suc)

lemma vns_run_numeral:
  "vns_run data lambda1 lambda2 pw verbose t0 max_time_seconds iteration (numeral k) s =
     rbind (vns_iter data lambda1 lambda2 pw verbose t0 max_time_seconds iteration s)
       (\<lambda>(s', go).
          if go then
            rbind (vns_run data lambda1 lambda2 pw verbose t0 max_time_seconds
                     (Suc iteration) (pred_numeral k) s') (\<lambda>states. Inr (s # states))
          else Inr [s, s'])"
  by (simp add: numeral_eq_Suc)

lemmas run_eval =
  search_defs tiny_data_fields tiny_late_def demo_world_def Let_def eval_extra
  ils_run_numeral vns_run_numeral min_def max_def

lemmas sa_defs =
  sa_init_def sa_solve_def sa_iter_def sa_accept_def sa_result_of_def
  generate_initial_solution_def new_solution_def get_neighbor_def neighbor_change_def
  list_remove_def evaluate_def check_feasibility_def calculate_operational_cost_def
  calculate_workload_balance_def tabu_init_def tabu_solve_def tabu_iter_def

lemma sa_run_numeral:
  "sa_run data lambda1 lambda2 cooling_rate (numeral k) s =
     rbind (sa_iter data lambda1 lambda2 cooling_rate s) (\<lambda>(s', go).
       if go then
         rbind (sa_run data lambda1 lambda2 cooling_rate (pred_numeral k) s')
           (\<lambda>states. Inr (s # states))
       else Inr [s, s'])"
  by (simp add: numeral_eq_Suc)

lemma gen_neighbors_numeral:
  "gen_neighbors data lambda1 lambda2 cur (numeral k) w =
     rbind (get_neighbor data lambda1 lambda2 cur w) (\<lambda>(neighbor, w1).
     rbind (gen_neighbors data lambda1 lambda2 cur (pred_numeral k) w1) (\<lambda>(rest, w2).
       Inr (neighbor # rest, w2)))"
  by (simp add: numeral_eq_Suc)

lemma tabu_run_1:
  "tabu_run data lambda1 lambda2 tabu_tenure 1 s =
     rbind (tabu_iter data lambda1 lambda2 tabu_tenure s) (\<lambda>s'. Inr [s, s'])"
  unfolding One_nat_def by simp

lemma saturated_data_fields:
  "patients saturated_data =
       [(''p1'', \<lparr>specialization = ''s'', earliest = 0, latest = 0, los = 1,
                 surgery_duration = 10, workload_per_day = [1]\<rparr>),
        (''p2'', \<lparr>specialization = ''s'', earliest = 0, latest = 0, los = 1,
                 surgery_duration = 10, workload_per_day = [1]\<rparr>),
        (''p3'', \<lparr>specialization = ''s'', earliest = 0, latest = 0, los = 1,
                 surgery_duration = 10, workload_per_day = [1]\<rparr>)]"
  "wards saturated_data = [(''W'', \<lparr>bed_capacity = 2, workload_capacity = 1, major_specialization = ''s'',
                minor_specializations = [], carryover_patients = [0],
                carryover_workload = [0]\<rparr>)]"
  "specialisms saturated_data = [(''s'', \<lparr>ot_time = [30], workload_factor = 1\<rparr>)]"
  "num_days saturated_data = 1" "weight_overtime saturated_data = 1"
  "weight_undertime saturated_data = 1" "weight_delay saturated_data = 1"
  by (simp_all add: saturated_data_def)

section \<open>ILS and VNS: invariants of a run\<close>

lemma rbind_Inr_iff: "rbind m f = Inr y \<longleftrightarrow> (\<exists>x. m = Inr x \<and> f x = Inr y)"
  by (cases m) auto

lemma write_cell_props:
  "cells (write_cell r v h) = (cells h)(r := v)" "fresh (write_cell r v h) = fresh h"
  by (simp_all add: write_cell_def)

lemma eps_pos: "0 < eps"
  by (simp add: eps_def)

lemma perturbations_fixed_emit:
  "perturbations_fixed out \<Longrightarrow>
   (case e of Perturbazione i x \<Rightarrow> x = 1 / 5 | StoppingEarly \<Rightarrow> False | _ \<Rightarrow> True) \<Longrightarrow>
   perturbations_fixed (emit verbose e out)"
  by (simp add: perturbations_fixed_def emit_def)

lemma perturb_intensity_at_limit: "perturb_intensity STAGNATION_LIMIT = 1 / 5"
  by (simp add: perturb_intensity_def STAGNATION_LIMIT_def PERTURB_BASE_RATIO_def
      PERTURB_MAX_RATIO_def)

lemma ils_init_inv:
  assumes "ils_init data lambda1 lambda2 start verbose w = Inr (t0, s0)"
  shows "ils_inv data lambda1 lambda2 s0 \<and> cells (heap s0) (best_feasible_allocation s0) = start
    \<and> feasible_after_change_beds data start None = Inr True"
  using assms
  by (auto simp: ils_init_def time_time_def deepcopy_def alloc_new_def rbind_Inr_iff
      ils_inv_def ils_refs_ok_def ils_best_ok_def STAGNATION_LIMIT_def
      perturbations_fixed_def emit_def
      split: if_splits prod.splits)

lemma ils_new_best_props:
  assumes "ils_refs_ok s"
    and "feasible_after_change_beds data (cells (heap s) (current s)) None = Inr True"
    and "objective_value data (cells (heap s) (current s)) lambda1 lambda2 = Inr v"
  shows "ils_refs_ok (ils_new_best verbose iteration v s)"
    and "ils_best_ok data lambda1 lambda2 (ils_new_best verbose iteration v s)"
    and "best_feasible_value (ils_new_best verbose iteration v s) = v"
    and "no_improve_counter (ils_new_best verbose iteration v s) = 0"
    and "printed (ils_new_best verbose iteration v s) = emit verbose (NewBest iteration v) (printed s)"
  using assms
  by (auto simp: ils_new_best_def deepcopy_def alloc_new_def ils_refs_ok_def ils_best_ok_def
      split: prod.splits)

lemma ils_consider_cases:
  assumes "ils_consider data lambda1 lambda2 verbose iteration s = Inr s'"
  obtains (new) v where
      "feasible_after_change_beds data (cells (heap s) (current s)) None = Inr True"
      "objective_value data (cells (heap s) (current s)) lambda1 lambda2 = Inr v"
      "v + eps < best_feasible_value s"
      "s' = ils_new_best verbose iteration v s"
    | (keep) "s' = s\<lparr>no_improve_counter := no_improve_counter s + 1\<rparr>"
proof -
  from assms obtain ok where
    f: "feasible_after_change_beds data (cells (heap s) (current s)) None = Inr ok"
    and r: "(if ok then
         rbind (objective_value data (cells (heap s) (current s)) lambda1 lambda2)
           (\<lambda>curr_val.
              if curr_val + eps < best_feasible_value s
              then Inr (ils_new_best verbose iteration curr_val s)
              else Inr (s\<lparr>no_improve_counter := no_improve_counter s + 1\<rparr>))
       else Inr (s\<lparr>no_improve_counter := no_improve_counter s + 1\<rparr>)) = Inr s'"
    unfolding ils_consider_def rbind_Inr_iff by blast
  show thesis
  proof (cases ok)
    case True
    with r obtain v where
      o: "objective_value data (cells (heap s) (current s)) lambda1 lambda2 = Inr v"
      and r2: "(if v + eps < best_feasible_value s
              then Inr (ils_new_best verbose iteration v s)
              else Inr (s\<lparr>no_improve_counter := no_improve_counter s + 1\<rparr>))
            = (Inr s' :: py_error + ils_state)"
      by (auto simp: rbind_Inr_iff)
    show thesis
    proof (cases "v + eps < best_feasible_value s")
      case lt: True
      show thesis using new[of v] f True o lt r2 by simp
    next
      case ge: False
      show thesis using keep ge r2 by simp
    qed
  next
    case False
    show thesis using keep False r by simp
  qed
qed

lemma ils_consider_props:
  assumes "ils_consider data lambda1 lambda2 verbose iteration s = Inr s'"
    and "ils_refs_ok s" and "ils_best_ok data lambda1 lambda2 s"
  shows "ils_refs_ok s' \<and> ils_best_ok data lambda1 lambda2 s'
    \<and> no_improve_counter s' \<le> Suc (no_improve_counter s)
    \<and> (perturbations_fixed (printed s) \<longrightarrow> perturbations_fixed (printed s'))
    \<and> (best_feasible_value s' < best_feasible_value s \<or> ils_best s' = ils_best s)"
  using assms(1)
proof (cases rule: ils_consider_cases)
  case (new v)
  show ?thesis
    using ils_new_best_props[OF assms(2) new(1,2), of verbose iteration] new(3) eps_pos
    by (simp add: new(4) perturbations_fixed_emit)
next
  case keep
  show ?thesis using assms(2,3)
    by (simp add: keep ils_refs_ok_def ils_best_ok_def ils_best_def)
qed

lemma ils_accept_props:
  assumes "ils_accept data lambda1 lambda2 pw verbose iteration s = Inr s'"
    and "ils_refs_ok s" and "ils_best_ok data lambda1 lambda2 s"
  shows "ils_refs_ok s' \<and> ils_best_ok data lambda1 lambda2 s'
    \<and> no_improve_counter s' \<le> Suc (no_improve_counter s)
    \<and> (perturbations_fixed (printed s) \<longrightarrow> perturbations_fixed (printed s'))
    \<and> (best_feasible_value s' < best_feasible_value s \<or> ils_best s' = ils_best s)"
proof -
  from assms(1) obtain al vp w1 where
    c: "ils_consider data lambda1 lambda2 verbose iteration
          (s\<lparr>heap := write_cell (current s) al (heap s), env := w1\<rparr>) = Inr s'"
    unfolding ils_accept_def rbind_Inr_iff by auto
  let ?s1 = "s\<lparr>heap := write_cell (current s) al (heap s), env := w1\<rparr>"
  have r1: "ils_refs_ok ?s1"
    using assms(2) by (simp add: ils_refs_ok_def write_cell_props)
  have b1: "ils_best_ok data lambda1 lambda2 ?s1"
    using assms(2,3) by (simp add: ils_refs_ok_def ils_best_ok_def write_cell_props)
  have e1: "ils_best ?s1 = ils_best s" "best_feasible_value ?s1 = best_feasible_value s"
    "no_improve_counter ?s1 = no_improve_counter s" "printed ?s1 = printed s"
    using assms(2) by (simp_all add: ils_refs_ok_def ils_best_def write_cell_props)
  show ?thesis using ils_consider_props[OF c r1 b1] e1 by simp
qed

lemma ils_stagnation_props:
  assumes "ils_stagnation data verbose iteration s = Inr s'"
    and "ils_refs_ok s" and "ils_best_ok data lambda1 lambda2 s"
    and "no_improve_counter s \<le> STAGNATION_LIMIT"
  shows "ils_refs_ok s' \<and> ils_best_ok data lambda1 lambda2 s'
    \<and> no_improve_counter s' < STAGNATION_LIMIT
    \<and> (perturbations_fixed (printed s) \<longrightarrow> perturbations_fixed (printed s'))
    \<and> ils_best s' = ils_best s"
proof (cases "no_improve_counter s \<ge> STAGNATION_LIMIT")
  case True
  then have c: "no_improve_counter s = STAGNATION_LIMIT" using assms(4) by simp
  from assms(1) True obtain perturbed w1 where
    s': "s' = s\<lparr>heap := snd (alloc_new perturbed (heap s)),
                current := fst (alloc_new perturbed (heap s)), no_improve_counter := 0,
                printed := emit verbose (Perturbazione iteration (perturb_intensity (no_improve_counter s))) (printed s),
                env := w1\<rparr>"
    unfolding ils_stagnation_def by (auto simp: rbind_Inr_iff Let_def alloc_new_def)
  have pos: "0 < STAGNATION_LIMIT" by (simp add: STAGNATION_LIMIT_def)
  show ?thesis using assms(2,3) pos
    by (auto simp: s' c ils_refs_ok_def ils_best_ok_def ils_best_def alloc_new_def
        perturb_intensity_at_limit perturbations_fixed_emit)
next
  case False
  then have "s' = s" using assms(1) by (simp add: ils_stagnation_def)
  then show ?thesis using assms(2,3) False by simp
qed

lemma ils_body_props:
  assumes "ils_body data lambda1 lambda2 pw verbose iteration s = Inr s'"
    and "ils_inv data lambda1 lambda2 s"
  shows "ils_inv data lambda1 lambda2 s'
    \<and> (best_feasible_value s' < best_feasible_value s \<or> ils_best s' = ils_best s)"
proof -
  from assms(1) obtain s1 where
    a: "ils_accept data lambda1 lambda2 pw verbose iteration s = Inr s1"
    and b: "ils_stagnation data verbose iteration s1 = Inr s'"
    unfolding ils_body_def rbind_Inr_iff by blast
  have inv: "ils_refs_ok s" "ils_best_ok data lambda1 lambda2 s"
    "no_improve_counter s < STAGNATION_LIMIT" "perturbations_fixed (printed s)"
    using assms(2) by (simp_all add: ils_inv_def)
  note pa = ils_accept_props[OF a inv(1,2)]
  have c1: "no_improve_counter s1 \<le> STAGNATION_LIMIT" using pa inv(3) by simp
  note pb = ils_stagnation_props[OF b _ _ c1, of lambda1 lambda2]
  show ?thesis using pa pb inv(4) by (auto simp: ils_inv_def ils_best_def)
qed

lemma ils_iter_props:
  assumes "ils_iter data lambda1 lambda2 pw verbose t0 mts iteration s = Inr (s', go)"
    and "ils_inv data lambda1 lambda2 s"
  shows "ils_inv data lambda1 lambda2 s'
    \<and> (best_feasible_value s' < best_feasible_value s \<or> ils_best s' = ils_best s)"
proof -
  obtain t w1 where tt: "time_time (env s) = (t, w1)" by (cases "time_time (env s)")
  show ?thesis
  proof (cases "t - t0 > mts")
    case True
    then have "s' = s\<lparr>env := w1, printed := emit verbose TimeoutReached (printed s)\<rparr>"
      using assms(1) tt by (simp add: ils_iter_def)
    then show ?thesis using assms(2)
      by (simp add: ils_inv_def ils_refs_ok_def ils_best_ok_def ils_best_def
          perturbations_fixed_emit)
  next
    case False
    then obtain s2 where b: "ils_body data lambda1 lambda2 pw verbose iteration (s\<lparr>env := w1\<rparr>) = Inr s2"
      and fin: "(if no_improve_counter s2 \<ge> STAGNATION_LIMIT * 2
                   then Inr (s2\<lparr>printed := emit verbose StoppingEarly (printed s2)\<rparr>, False)
                   else Inr (s2, True)) = (Inr (s', go) :: py_error + ils_state \<times> bool)"
      using assms(1) tt by (auto simp: ils_iter_def rbind_Inr_iff)
    have i1: "ils_inv data lambda1 lambda2 (s\<lparr>env := w1\<rparr>)"
      using assms(2) by (simp add: ils_inv_def ils_refs_ok_def ils_best_ok_def)
    note pb = ils_body_props[OF b i1]
    have "\<not> no_improve_counter s2 \<ge> STAGNATION_LIMIT * 2"
      using pb by (simp add: ils_inv_def)
    then have "s' = s2" using fin by simp
    then show ?thesis using pb by (simp add: ils_best_def)
  qed
qed

lemma ils_run_hd:
  "ils_run data lambda1 lambda2 pw verbose t0 mts iteration n s = Inr states \<Longrightarrow>
   states \<noteq> [] \<and> hd states = s"
  by (cases n) (auto simp: rbind_Inr_iff split: if_splits prod.splits)

lemma ils_run_inv:
  "ils_run data lambda1 lambda2 pw verbose t0 mts iteration n s = Inr states \<Longrightarrow>
   ils_inv data lambda1 lambda2 s \<Longrightarrow>
   list_all (ils_inv data lambda1 lambda2) states"
proof (induction n arbitrary: iteration s states)
  case 0
  then show ?case by auto
next
  case (Suc n)
  from Suc.prems(1) obtain s' go where
    it: "ils_iter data lambda1 lambda2 pw verbose t0 mts iteration s = Inr (s', go)"
    and rest: "(if go then
            rbind (ils_run data lambda1 lambda2 pw verbose t0 mts (Suc iteration) n s')
              (\<lambda>states. Inr (s # states))
          else Inr [s, s']) = Inr states"
    by (auto simp: rbind_Inr_iff)
  have i': "ils_inv data lambda1 lambda2 s'" using ils_iter_props[OF it Suc.prems(2)] by simp
  show ?case
  proof (cases go)
    case True
    then obtain tr where tr: "ils_run data lambda1 lambda2 pw verbose t0 mts (Suc iteration) n s' = Inr tr"
      and st: "states = s # tr" using rest by (auto simp: rbind_Inr_iff)
    show ?thesis using Suc.IH[OF tr i'] Suc.prems(2) st by simp
  next
    case False
    then show ?thesis using rest i' Suc.prems(2) by auto
  qed
qed

lemma ils_run_mono:
  "ils_run data lambda1 lambda2 pw verbose t0 mts iteration n s = Inr states \<Longrightarrow>
   ils_inv data lambda1 lambda2 s \<Longrightarrow>
   sorted_wrt (\<lambda>a b. best_feasible_value b < best_feasible_value a \<or> ils_best b = ils_best a) states"
proof (induction n arbitrary: iteration s states)
  case 0
  then show ?case by auto
next
  case (Suc n)
  let ?R = "\<lambda>a b. best_feasible_value b < best_feasible_value a \<or> ils_best b = ils_best a"
  from Suc.prems(1) obtain s' go where
    it: "ils_iter data lambda1 lambda2 pw verbose t0 mts iteration s = Inr (s', go)"
    and rest: "(if go then
            rbind (ils_run data lambda1 lambda2 pw verbose t0 mts (Suc iteration) n s')
              (\<lambda>states. Inr (s # states))
          else Inr [s, s']) = Inr states"
    by (auto simp: rbind_Inr_iff)
  note p = ils_iter_props[OF it Suc.prems(2)]
  show ?case
  proof (cases go)
    case True
    then obtain tr where tr: "ils_run data lambda1 lambda2 pw verbose t0 mts (Suc iteration) n s' = Inr tr"
      and st: "states = s # tr" using rest by (auto simp: rbind_Inr_iff)
    have sw: "sorted_wrt ?R tr" using Suc.IH[OF tr] p by simp
    have hd: "tr \<noteq> []" "hd tr = s'" using ils_run_hd[OF tr] by simp_all
    have "\<forall>x \<in> set tr. ?R s x"
    proof
      fix x assume x: "x \<in> set tr"
      have "?R s' x"
      proof (cases "x = s'")
        case True
        then show ?thesis by simp
      next
        case False
        obtain tl where tl: "tr = s' # tl" using hd by (cases tr) auto
        then have "x \<in> set tl" using x False by simp
        then show ?thesis using sw tl by simp
      qed
      moreover have "?R s s'" using p by simp
      ultimately show "?R s x" by (auto simp: ils_best_def)
    qed
    then show ?thesis using sw st by simp
  next
    case False
    then show ?thesis using rest p by auto
  qed
qed

lemma vns_init_inv:
  assumes "vns_init data lambda1 lambda2 start verbose w = Inr (t0, s0)"
  shows "vns_inv data lambda1 lambda2 s0 \<and> cells (vheap s0) (vbest_feasible_allocation s0) = start
    \<and> feasible_after_change_beds data start None = Inr True"
  using assms
  by (auto simp: vns_init_def time_time_def deepcopy_def alloc_new_def rbind_Inr_iff
      vns_inv_def vns_refs_ok_def vns_best_ok_def K_MAX_def
      split: if_splits prod.splits)

lemma vns_candidate_props:
  assumes "vns_candidate data lambda1 lambda2 pw s = Inr (cand, s1)"
  shows "cand = fresh (vheap s)" and "fresh (vheap s1) = Suc (fresh (vheap s))"
    and "\<And>r. r < fresh (vheap s) \<Longrightarrow> cells (vheap s1) r = cells (vheap s) r"
    and "vcurrent s1 = vcurrent s" and "vbest_feasible_allocation s1 = vbest_feasible_allocation s"
    and "vbest_feasible_value s1 = vbest_feasible_value s" and "k_index s1 = k_index s"
  using assms
  by (auto simp: vns_candidate_def rbind_Inr_iff alloc_new_def write_cell_def split: prod.splits)

lemma vns_new_best_props:
  assumes "improved_solution < fresh (vheap s)"
    and "feasible_after_change_beds data (cells (vheap s) improved_solution) None = Inr True"
    and "objective_value data (cells (vheap s) improved_solution) lambda1 lambda2 = Inr v"
  shows "vns_refs_ok (vns_new_best verbose iteration improved_solution v s)"
    and "vns_best_ok data lambda1 lambda2 (vns_new_best verbose iteration improved_solution v s)"
    and "vns_best (vns_new_best verbose iteration improved_solution v s)
          = (cells (vheap s) improved_solution, v)"
    and "k_index (vns_new_best verbose iteration improved_solution v s) = 1"
    and "cells (vheap (vns_new_best verbose iteration improved_solution v s))
           (vcurrent (vns_new_best verbose iteration improved_solution v s))
          = cells (vheap s) improved_solution"
  using assms
  by (auto simp: vns_new_best_def deepcopy_def alloc_new_def vns_refs_ok_def vns_best_ok_def
      vns_best_def split: prod.splits)

lemma vns_consider_cases:
  assumes "vns_consider data lambda1 lambda2 verbose iteration cand s = Inr s'"
  obtains (new) v where
      "feasible_after_change_beds data (cells (vheap s) cand) None = Inr True"
      "objective_value data (cells (vheap s) cand) lambda1 lambda2 = Inr v"
      "v + eps < vbest_feasible_value s"
      "vns_improves data lambda1 lambda2 (cells (vheap s) cand) (vbest_feasible_value s)"
      "s' = vns_new_best verbose iteration cand v s"
    | (keep) "\<not> vns_improves data lambda1 lambda2 (cells (vheap s) cand) (vbest_feasible_value s)"
      "s' = s\<lparr>k_index := k_index s + 1\<rparr>"
proof -
  from assms obtain ok where
    f: "feasible_after_change_beds data (cells (vheap s) cand) None = Inr ok"
    and r: "(if ok then
         rbind (objective_value data (cells (vheap s) cand) lambda1 lambda2)
           (\<lambda>improved_val.
              if improved_val + eps < vbest_feasible_value s
              then Inr (vns_new_best verbose iteration cand improved_val s)
              else Inr (s\<lparr>k_index := k_index s + 1\<rparr>))
       else Inr (s\<lparr>k_index := k_index s + 1\<rparr>)) = Inr s'"
    unfolding vns_consider_def rbind_Inr_iff by blast
  show thesis
  proof (cases ok)
    case True
    with r obtain v where
      o: "objective_value data (cells (vheap s) cand) lambda1 lambda2 = Inr v"
      and r2: "(if v + eps < vbest_feasible_value s
              then Inr (vns_new_best verbose iteration cand v s)
              else Inr (s\<lparr>k_index := k_index s + 1\<rparr>)) = (Inr s' :: py_error + vns_state)"
      by (auto simp: rbind_Inr_iff)
    show thesis
    proof (cases "v + eps < vbest_feasible_value s")
      case lt: True
      show thesis
        using new[of v] f True o lt r2 by (simp add: vns_improves_def)
    next
      case ge: False
      show thesis
        using keep f True o ge r2 by (simp add: vns_improves_def)
    qed
  next
    case False
    show thesis using keep f False r by (simp add: vns_improves_def)
  qed
qed

lemma vns_wrap_k:
  "k_index (vns_wrap s) = (if k_index s > K_MAX then 1 else k_index s)"
  "vheap (vns_wrap s) = vheap s" "vcurrent (vns_wrap s) = vcurrent s"
  "vbest_feasible_allocation (vns_wrap s) = vbest_feasible_allocation s"
  "vbest_feasible_value (vns_wrap s) = vbest_feasible_value s"
  by (simp_all add: vns_wrap_def)

lemma vns_progress_same:
  "k_index (vns_progress verbose iteration s) = k_index s"
  "vheap (vns_progress verbose iteration s) = vheap s"
  "vcurrent (vns_progress verbose iteration s) = vcurrent s"
  "vbest_feasible_allocation (vns_progress verbose iteration s) = vbest_feasible_allocation s"
  "vbest_feasible_value (vns_progress verbose iteration s) = vbest_feasible_value s"
  by (simp_all add: vns_progress_def split: prod.splits)

lemma vns_body_props:
  assumes "vns_body data lambda1 lambda2 pw verbose iteration s = Inr s'"
    and "vns_inv data lambda1 lambda2 s"
  shows "vns_inv data lambda1 lambda2 s'
    \<and> (\<exists>cand s1. vns_candidate data lambda1 lambda2 pw s = Inr (cand, s1)
         \<and> (if vns_improves data lambda1 lambda2 (cells (vheap s1) cand) (vbest_feasible_value s)
            then k_index s' = 1
               \<and> cells (vheap s') (vbest_feasible_allocation s') = cells (vheap s1) cand
               \<and> vbest_feasible_value s' < vbest_feasible_value s
            else k_index s' = (if k_index s + 1 > K_MAX then 1 else k_index s + 1)
               \<and> vns_best s' = vns_best s))"
proof -
  from assms(1) obtain cand s1 s2 where
    c: "vns_candidate data lambda1 lambda2 pw s = Inr (cand, s1)"
    and d: "vns_consider data lambda1 lambda2 verbose iteration cand s1 = Inr s2"
    and s': "s' = vns_progress verbose iteration (vns_wrap s2)"
    by (auto simp: vns_body_def rbind_Inr_iff)
  note cp = vns_candidate_props[OF c]
  have inv: "vcurrent s < fresh (vheap s)" "vbest_feasible_allocation s < fresh (vheap s)"
    "vns_best_ok data lambda1 lambda2 s" "1 \<le> k_index s" "k_index s \<le> K_MAX"
    "cells (vheap s) (vcurrent s) = cells (vheap s) (vbest_feasible_allocation s)"
    using assms(2) by (simp_all add: vns_inv_def vns_refs_ok_def)
  have same1: "cells (vheap s1) (vcurrent s1) = cells (vheap s) (vcurrent s)"
    "cells (vheap s1) (vbest_feasible_allocation s1) = cells (vheap s) (vbest_feasible_allocation s)"
    using cp inv(1,2) by simp_all
  from d show ?thesis
  proof (cases rule: vns_consider_cases)
    case (new v)
    have lt: "cand < fresh (vheap s1)" using cp(1,2) by simp
    note nb = vns_new_best_props[OF lt new(1,2), of verbose iteration]
    have kmax: "\<not> 1 > K_MAX" by (simp add: K_MAX_def)
    have inv': "vns_inv data lambda1 lambda2 s'"
      using nb kmax
      by (simp add: s' new(5) vns_inv_def vns_refs_ok_def vns_best_ok_def vns_best_def
          vns_wrap_k vns_progress_same K_MAX_def)
    have "k_index s' = 1" using nb(4) kmax by (simp add: s' new(5) vns_wrap_k vns_progress_same)
    moreover have "cells (vheap s') (vbest_feasible_allocation s') = cells (vheap s1) cand"
      using nb(3) by (simp add: s' new(5) vns_wrap_k vns_progress_same vns_best_def)
    moreover have "vbest_feasible_value s' < vbest_feasible_value s"
      using nb(3) new(3) eps_pos cp(6)
      by (simp add: s' new(5) vns_wrap_k vns_progress_same vns_best_def)
    ultimately show ?thesis using inv' c new(4) cp(6) by auto
  next
    case keep
    have k': "k_index s' = (if k_index s + 1 > K_MAX then 1 else k_index s + 1)"
      using cp(7) by (simp add: s' keep(2) vns_wrap_k vns_progress_same)
    have b': "vns_best s' = vns_best s"
      using same1 cp(5,6) by (simp add: s' keep(2) vns_wrap_k vns_progress_same vns_best_def)
    have inv': "vns_inv data lambda1 lambda2 s'"
      using inv same1 cp k'
      by (auto simp: s' keep(2) vns_inv_def vns_refs_ok_def vns_best_ok_def
          vns_wrap_k vns_progress_same)
    show ?thesis using inv' c keep(1) cp(6) k' b' by auto
  qed
qed

lemma vns_iter_props:
  assumes "vns_iter data lambda1 lambda2 pw verbose t0 mts iteration s = Inr (s', go)"
    and "vns_inv data lambda1 lambda2 s"
  shows "vns_inv data lambda1 lambda2 s'
    \<and> (vbest_feasible_value s' < vbest_feasible_value s \<or> vns_best s' = vns_best s)"
proof -
  obtain t w1 where tt: "time_time (venv s) = (t, w1)" by (cases "time_time (venv s)")
  show ?thesis
  proof (cases "t - t0 > mts")
    case True
    then have "s' = s\<lparr>venv := w1, vprinted := emit verbose TimeoutReached (vprinted s)\<rparr>"
      using assms(1) tt by (simp add: vns_iter_def)
    then show ?thesis using assms(2)
      by (simp add: vns_inv_def vns_refs_ok_def vns_best_ok_def vns_best_def)
  next
    case False
    then have b: "vns_body data lambda1 lambda2 pw verbose (Suc iteration) (s\<lparr>venv := w1\<rparr>) = Inr s'"
      using assms(1) tt by (auto simp: vns_iter_def rbind_Inr_iff)
    have i1: "vns_inv data lambda1 lambda2 (s\<lparr>venv := w1\<rparr>)"
      using assms(2) by (simp add: vns_inv_def vns_refs_ok_def vns_best_ok_def)
    from vns_body_props[OF b i1] show ?thesis
      by (auto simp: vns_best_def split: if_splits)
  qed
qed

lemma vns_run_hd:
  "vns_run data lambda1 lambda2 pw verbose t0 mts iteration n s = Inr states \<Longrightarrow>
   states \<noteq> [] \<and> hd states = s"
  by (cases n) (auto simp: rbind_Inr_iff split: if_splits prod.splits)

lemma vns_run_inv:
  "vns_run data lambda1 lambda2 pw verbose t0 mts iteration n s = Inr states \<Longrightarrow>
   vns_inv data lambda1 lambda2 s \<Longrightarrow>
   list_all (vns_inv data lambda1 lambda2) states"
proof (induction n arbitrary: iteration s states)
  case 0
  then show ?case by auto
next
  case (Suc n)
  from Suc.prems(1) obtain s' go where
    it: "vns_iter data lambda1 lambda2 pw verbose t0 mts iteration s = Inr (s', go)"
    and rest: "(if go then
            rbind (vns_run data lambda1 lambda2 pw verbose t0 mts (Suc iteration) n s')
              (\<lambda>states. Inr (s # states))
          else Inr [s, s']) = Inr states"
    by (auto simp: rbind_Inr_iff)
  have i': "vns_inv data lambda1 lambda2 s'" using vns_iter_props[OF it Suc.prems(2)] by simp
  show ?case
  proof (cases go)
    case True
    then obtain tr where tr: "vns_run data lambda1 lambda2 pw verbose t0 mts (Suc iteration) n s' = Inr tr"
      and st: "states = s # tr" using rest by (auto simp: rbind_Inr_iff)
    show ?thesis using Suc.IH[OF tr i'] Suc.prems(2) st by simp
  next
    case False
    then show ?thesis using rest i' Suc.prems(2) by auto
  qed
qed

lemma vns_run_mono:
  "vns_run data lambda1 lambda2 pw verbose t0 mts iteration n s = Inr states \<Longrightarrow>
   vns_inv data lambda1 lambda2 s \<Longrightarrow>
   sorted_wrt (\<lambda>a b. vbest_feasible_value b < vbest_feasible_value a \<or> vns_best b = vns_best a) states"
proof (induction n arbitrary: iteration s states)
  case 0
  then show ?case by auto
next
  case (Suc n)
  let ?R = "\<lambda>a b. vbest_feasible_value b < vbest_feasible_value a \<or> vns_best b = vns_best a"
  from Suc.prems(1) obtain s' go where
    it: "vns_iter data lambda1 lambda2 pw verbose t0 mts iteration s = Inr (s', go)"
    and rest: "(if go then
            rbind (vns_run data lambda1 lambda2 pw verbose t0 mts (Suc iteration) n s')
              (\<lambda>states. Inr (s # states))
          else Inr [s, s']) = Inr states"
    by (auto simp: rbind_Inr_iff)
  note p = vns_iter_props[OF it Suc.prems(2)]
  show ?case
  proof (cases go)
    case True
    then obtain tr where tr: "vns_run data lambda1 lambda2 pw verbose t0 mts (Suc iteration) n s' = Inr tr"
      and st: "states = s # tr" using rest by (auto simp: rbind_Inr_iff)
    have sw: "sorted_wrt ?R tr" using Suc.IH[OF tr] p by simp
    have hd: "tr \<noteq> []" "hd tr = s'" using vns_run_hd[OF tr] by simp_all
    have "\<forall>x \<in> set tr. ?R s x"
    proof
      fix x assume x: "x \<in> set tr"
      have "?R s' x"
      proof (cases "x = s'")
        case True
        then show ?thesis by simp
      next
        case False
        obtain tl where tl: "tr = s' # tl" using hd by (cases tr) auto
        then have "x \<in> set tl" using x False by simp
        then show ?thesis using sw tl by simp
      qed
      moreover have "?R s s'" using p by simp
      ultimately show "?R s x" by (auto simp: vns_best_def)
    qed
    then show ?thesis using sw st by simp
  next
    case False
    then show ?thesis using rest p by auto
  qed
qed

lemma ils_run_last:
  "ils_run data lambda1 lambda2 pw verbose t0 mts iteration n s = Inr states \<Longrightarrow>
   last states \<in> set states"
  using ils_run_hd by fastforce

lemma vns_run_last:
  "vns_run data lambda1 lambda2 pw verbose t0 mts iteration n s = Inr states \<Longrightarrow>
   last states \<in> set states"
  using vns_run_hd by fastforce

lemma ils_finish_fields:
  "res_allocation (fst (ils_finish verbose t0 s)) = cells (heap s) (best_feasible_allocation s)"
  "res_objective_value (fst (ils_finish verbose t0 s)) = best_feasible_value s"
  "snd (ils_finish verbose t0 s) = emit verbose (Done (best_feasible_value s)) (printed s)"
  by (simp_all add: ils_finish_def split: prod.splits)

lemma vns_finish_fields:
  "res_allocation (fst (vns_finish verbose t0 s)) = cells (vheap s) (vbest_feasible_allocation s)"
  "res_objective_value (fst (vns_finish verbose t0 s)) = vbest_feasible_value s"
  by (simp_all add: vns_finish_def split: prod.splits)

lemma ils_solve_run:
  assumes "ils_solve data lambda1 lambda2 pw start n mt verbose w = Inr (res, out)"
  obtains t0 s0 states where
    "ils_init data lambda1 lambda2 start verbose w = Inr (t0, s0)"
    "ils_run data lambda1 lambda2 pw verbose t0 (mt * 60) 0 n s0 = Inr states"
    "(res, out) = ils_finish verbose t0 (last states)"
  using assms by (auto simp: ils_solve_def rbind_Inr_iff)

lemma vns_solve_run:
  assumes "vns_solve data lambda1 lambda2 pw start n mt verbose w = Inr (res, out)"
  obtains t0 s0 states where
    "vns_init data lambda1 lambda2 start verbose w = Inr (t0, s0)"
    "vns_run data lambda1 lambda2 pw verbose t0 (mt * 60) 0 n s0 = Inr states"
    "(res, out) = vns_finish verbose t0 (last states)"
  using assms by (auto simp: vns_solve_def rbind_Inr_iff)

lemma ils_run_feasible:
  assumes "ils_init data lambda1 lambda2 start verbose w = Inr (t0, s0)"
    and "ils_run data lambda1 lambda2 pw verbose t0 mts 0 n s0 = Inr states"
  shows "list_all (\<lambda>s. feasible_after_change_beds data
            (cells (heap s) (best_feasible_allocation s)) None = Inr True) states"
proof -
  have "list_all (ils_inv data lambda1 lambda2) states"
    using ils_run_inv[OF assms(2)] ils_init_inv[OF assms(1)] by simp
  then show ?thesis by (simp add: list_all_iff ils_inv_def ils_best_ok_def)
qed

lemma vns_run_feasible:
  assumes "vns_init data lambda1 lambda2 start verbose w = Inr (t0, s0)"
    and "vns_run data lambda1 lambda2 pw verbose t0 mts 0 n s0 = Inr states"
  shows "list_all (\<lambda>s. feasible_after_change_beds data
            (cells (vheap s) (vbest_feasible_allocation s)) None = Inr True) states"
proof -
  have "list_all (vns_inv data lambda1 lambda2) states"
    using vns_run_inv[OF assms(2)] vns_init_inv[OF assms(1)] by simp
  then show ?thesis by (simp add: list_all_iff vns_inv_def vns_best_ok_def)
qed

lemma perturbations_fixed_set:
  "perturbations_fixed out \<Longrightarrow>
     (\<forall>i x. Perturbazione i x \<in> set out \<longrightarrow> x = 1 / 5) \<and> StoppingEarly \<notin> set out"
  by (fastforce simp: perturbations_fixed_def list_all_iff)

section \<open>Concrete runs\<close>

text \<open>
  Runs of the model in \<open>demo_world\<close>. On the one-patient instance started from
  \<open>tiny_late\<close>, the first pass of either search moves the patient to day 0 and finds
  the new best 11/2; no later pass improves on it.
\<close>

lemma tiny_ils_45:
  "\<exists>res. ils_solve tiny_data (1 / 2) (1 / 2) 1000 tiny_late 45 10 True demo_world
     = Inr (res, [Initial 6, NewBest 0 (11 / 2), Perturbazione 20 (1 / 5),
                  Perturbazione 40 (1 / 5), Done (11 / 2)])"
  by (simp add: run_eval
      cong: rbind_weak_cong prod.case_cong_weak sum.case_cong_weak option.case_cong_weak)

lemma tiny_vns_2:
  "\<exists>t0 s0 states.
     vns_init tiny_data (1 / 2) (1 / 2) tiny_late True demo_world = Inr (t0, s0)
     \<and> vns_run tiny_data (1 / 2) (1 / 2) 1000 True t0 600 0 2 s0 = Inr states
     \<and> s0 \<in> set states
     \<and> map k_index states = [1, 1, 2]
     \<and> map vbest_feasible_value states = [6, 11 / 2, 11 / 2]"
  by (simp add: run_eval
      cong: rbind_weak_cong prod.case_cong_weak sum.case_cong_weak option.case_cong_weak)

lemma tiny_ils_2:
  "\<exists>t0 s0 states.
     ils_init tiny_data (1 / 2) (1 / 2) tiny_late True demo_world = Inr (t0, s0)
     \<and> ils_run tiny_data (1 / 2) (1 / 2) 1000 True t0 600 0 2 s0 = Inr states
     \<and> map best_feasible_value states = [6, 11 / 2, 11 / 2]"
  by (simp add: run_eval
      cong: rbind_weak_cong prod.case_cong_weak sum.case_cong_weak option.case_cong_weak)

lemma tiny_solve_2:
  "(\<exists>res out. ils_solve tiny_data (1 / 2) (1 / 2) 1000 tiny_late 2 10 True demo_world = Inr (res, out))
   \<and> (\<exists>res out. vns_solve tiny_data (1 / 2) (1 / 2) 1000 tiny_late 2 10 True demo_world = Inr (res, out))"
  by (simp add: run_eval
      cong: rbind_weak_cong prod.case_cong_weak sum.case_cong_weak option.case_cong_weak)

lemma demo_crowded_infeasible:
  "feasible_after_change_beds demo_data demo_crowded None = Inr False"
  by (simp add: search_defs demo_data_fields demo_crowded_def
      cong: rbind_weak_cong prod.case_cong_weak sum.case_cong_weak option.case_cong_weak)

section \<open>Properties of ILS and VNS\<close>

text \<open>
  Claim C4. In every ILS and every VNS run the stored best allocation passes the
  bed-capacity check in every state the run goes through, and so does the allocation that
  \<open>solve\<close> returns. (A run exists only for a seed that passes the check; the local search
  works on other objects of the store, under the penalized objective.)
\<close>

theorem published_best_feasible:
  "(ils_init data lambda1 lambda2 start verbose w = Inr (t0, s0) \<longrightarrow>
    ils_run data lambda1 lambda2 pw verbose t0 mts 0 n s0 = Inr states \<longrightarrow>
      list_all (\<lambda>s. feasible_after_change_beds data
                  (cells (heap s) (best_feasible_allocation s)) None = Inr True) states)
   \<and> (ils_solve data lambda1 lambda2 pw start n mt verbose w = Inr (res, out) \<longrightarrow>
        feasible_after_change_beds data (res_allocation res) None = Inr True)
   \<and> (vns_init data lambda1 lambda2 start verbose w = Inr (t0, v0) \<longrightarrow>
      vns_run data lambda1 lambda2 pw verbose t0 mts 0 n v0 = Inr vstates \<longrightarrow>
        list_all (\<lambda>s. feasible_after_change_beds data
                  (cells (vheap s) (vbest_feasible_allocation s)) None = Inr True) vstates)
   \<and> (vns_solve data lambda1 lambda2 pw start n mt verbose w = Inr (vres, vout) \<longrightarrow>
        feasible_after_change_beds data (res_allocation vres) None = Inr True)"
proof (intro conjI impI)
  assume "ils_init data lambda1 lambda2 start verbose w = Inr (t0, s0)"
    and "ils_run data lambda1 lambda2 pw verbose t0 mts 0 n s0 = Inr states"
  then show "list_all (\<lambda>s. feasible_after_change_beds data
                  (cells (heap s) (best_feasible_allocation s)) None = Inr True) states"
    by (rule ils_run_feasible)
next
  assume a: "ils_solve data lambda1 lambda2 pw start n mt verbose w = Inr (res, out)"
  then obtain t1 s1 sts where
    i: "ils_init data lambda1 lambda2 start verbose w = Inr (t1, s1)"
    and r: "ils_run data lambda1 lambda2 pw verbose t1 (mt * 60) 0 n s1 = Inr sts"
    and f: "(res, out) = ils_finish verbose t1 (last sts)"
    by (rule ils_solve_run)
  have "res = fst (ils_finish verbose t1 (last sts))" using f by (metis fst_conv)
  then show "feasible_after_change_beds data (res_allocation res) None = Inr True"
    using ils_run_feasible[OF i r] ils_run_last[OF r]
    by (simp add: ils_finish_fields list_all_iff)
next
  assume "vns_init data lambda1 lambda2 start verbose w = Inr (t0, v0)"
    and "vns_run data lambda1 lambda2 pw verbose t0 mts 0 n v0 = Inr vstates"
  then show "list_all (\<lambda>s. feasible_after_change_beds data
                  (cells (vheap s) (vbest_feasible_allocation s)) None = Inr True) vstates"
    by (rule vns_run_feasible)
next
  assume a: "vns_solve data lambda1 lambda2 pw start n mt verbose w = Inr (vres, vout)"
  then obtain t1 s1 sts where
    i: "vns_init data lambda1 lambda2 start verbose w = Inr (t1, s1)"
    and r: "vns_run data lambda1 lambda2 pw verbose t1 (mt * 60) 0 n s1 = Inr sts"
    and f: "(vres, vout) = vns_finish verbose t1 (last sts)"
    by (rule vns_solve_run)
  have "vres = fst (vns_finish verbose t1 (last sts))" using f by (metis fst_conv)
  then show "feasible_after_change_beds data (res_allocation vres) None = Inr True"
    using vns_run_feasible[OF i r] vns_run_last[OF r]
    by (simp add: vns_finish_fields list_all_iff)
qed

theorem published_best_feasible_witness:
  "(\<exists>t0 s0 states.
      ils_init tiny_data (1 / 2) (1 / 2) tiny_late True demo_world = Inr (t0, s0)
      \<and> ils_run tiny_data (1 / 2) (1 / 2) 1000 True t0 600 0 2 s0 = Inr states
      \<and> list_all (\<lambda>s. feasible_after_change_beds tiny_data
                  (cells (heap s) (best_feasible_allocation s)) None = Inr True) states)
   \<and> (\<exists>res out.
        ils_solve tiny_data (1 / 2) (1 / 2) 1000 tiny_late 2 10 True demo_world = Inr (res, out)
        \<and> feasible_after_change_beds tiny_data (res_allocation res) None = Inr True)
   \<and> (\<exists>t0 v0 vstates.
        vns_init tiny_data (1 / 2) (1 / 2) tiny_late True demo_world = Inr (t0, v0)
        \<and> vns_run tiny_data (1 / 2) (1 / 2) 1000 True t0 600 0 2 v0 = Inr vstates
        \<and> list_all (\<lambda>s. feasible_after_change_beds tiny_data
                  (cells (vheap s) (vbest_feasible_allocation s)) None = Inr True) vstates)
   \<and> (\<exists>vres vout.
        vns_solve tiny_data (1 / 2) (1 / 2) 1000 tiny_late 2 10 True demo_world = Inr (vres, vout)
        \<and> feasible_after_change_beds tiny_data (res_allocation vres) None = Inr True)"
proof -
  from tiny_ils_2 obtain t0 s0 states where
    i: "ils_init tiny_data (1 / 2) (1 / 2) tiny_late True demo_world = Inr (t0, s0)"
    and r: "ils_run tiny_data (1 / 2) (1 / 2) 1000 True t0 600 0 2 s0 = Inr states"
    by auto
  from tiny_vns_2 obtain t1 v0 vstates where
    vi: "vns_init tiny_data (1 / 2) (1 / 2) tiny_late True demo_world = Inr (t1, v0)"
    and vr: "vns_run tiny_data (1 / 2) (1 / 2) 1000 True t1 600 0 2 v0 = Inr vstates"
    by auto
  from tiny_solve_2 obtain res out vres vout where
    s: "ils_solve tiny_data (1 / 2) (1 / 2) 1000 tiny_late 2 10 True demo_world = Inr (res, out)"
    and vs: "vns_solve tiny_data (1 / 2) (1 / 2) 1000 tiny_late 2 10 True demo_world
              = Inr (vres, vout)"
    by auto
  note a = published_best_feasible[THEN conjunct1, rule_format, OF i r]
  note b = published_best_feasible[THEN conjunct2, THEN conjunct1, rule_format, OF s]
  note c = published_best_feasible[THEN conjunct2, THEN conjunct2, THEN conjunct1,
      rule_format, OF vi vr]
  note d = published_best_feasible[THEN conjunct2, THEN conjunct2, THEN conjunct2,
      rule_format, OF vs]
  show ?thesis
    by (intro exI conjI) (rule i r a s b vi vr c vs d)+
qed

text \<open>
  Claim C5. When the start allocation fails the bed-capacity check, \<open>solve\<close> of ILS and
  of VNS raises \<open>ValueError\<close>, whatever the iteration cap, the time budget and the world
  are: no pass of the loop is made and nothing is returned.
\<close>

theorem infeasible_seed_rejected:
  assumes "feasible_after_change_beds data start_allocation None = Inr False"
  shows "ils_solve data lambda1 lambda2 pw start_allocation max_iterations max_time_minutes
           verbose w = Inl start_error
       \<and> vns_solve data lambda1 lambda2 pw start_allocation max_iterations max_time_minutes
           verbose w = Inl start_error"
  using assms
  by (simp add: ils_solve_def ils_init_def vns_solve_def vns_init_def deepcopy_def
      alloc_new_def time_time_def split: prod.splits)

theorem infeasible_seed_rejected_witness:
  "feasible_after_change_beds demo_data demo_crowded None = Inr False
   \<and> ils_solve demo_data (1 / 2) (1 / 2) 1000 demo_crowded 50 10 True demo_world
        = Inl start_error
   \<and> vns_solve demo_data (1 / 2) (1 / 2) 1000 demo_crowded 100 10 True demo_world
        = Inl start_error"
  using infeasible_seed_rejected[OF demo_crowded_infeasible, of "1 / 2" "1 / 2" 1000 50 10 True
      demo_world]
    infeasible_seed_rejected[OF demo_crowded_infeasible, of "1 / 2" "1 / 2" 1000 100 10 True
      demo_world]
    demo_crowded_infeasible
  by blast




text \<open>
  Claim C8 (what the code does). The stagnation counter is set to 0 by every perturbation
  and is tested after every pass, so it is exactly \<open>STAGNATION_LIMIT\<close> whenever a
  perturbation happens: every perturbation of every ILS run has the intensity
  min(0.25, 0.10 * (1 + 20 / 20)) = 1/5, and the early stop at twice the limit is never
  taken. The fraction does not grow with repeated stagnation.
\<close>

theorem ils_perturbation_intensity_fixed:
  assumes "ils_solve data lambda1 lambda2 pw start n mt verbose w = Inr (res, out)"
  shows "(\<forall>i x. Perturbazione i x \<in> set out \<longrightarrow> x = 1 / 5) \<and> StoppingEarly \<notin> set out"
proof -
  from assms obtain t1 s1 sts where
    i: "ils_init data lambda1 lambda2 start verbose w = Inr (t1, s1)"
    and r: "ils_run data lambda1 lambda2 pw verbose t1 (mt * 60) 0 n s1 = Inr sts"
    and f: "(res, out) = ils_finish verbose t1 (last sts)"
    by (rule ils_solve_run)
  have "list_all (ils_inv data lambda1 lambda2) sts"
    using ils_run_inv[OF r] ils_init_inv[OF i] by simp
  then have "perturbations_fixed (printed (last sts))"
    using ils_run_last[OF r] by (simp add: list_all_iff ils_inv_def)
  then have "perturbations_fixed (emit verbose (Done (best_feasible_value (last sts))) (printed (last sts)))"
    by (rule perturbations_fixed_emit) simp
  moreover have "out = snd (ils_finish verbose t1 (last sts))" using f by (metis snd_conv)
  ultimately have "perturbations_fixed out" by (simp add: ils_finish_fields)
  then show ?thesis by (rule perturbations_fixed_set)
qed

theorem ils_perturbation_intensity_fixed_witness:
  "\<exists>res. ils_solve tiny_data (1 / 2) (1 / 2) 1000 tiny_late 45 10 True demo_world
       = Inr (res, [Initial 6, NewBest 0 (11 / 2), Perturbazione 20 (1 / 5),
                    Perturbazione 40 (1 / 5), Done (11 / 2)])
     \<and> (\<forall>i x. Perturbazione i x \<in> set [Initial 6, NewBest 0 (11 / 2), Perturbazione 20 (1 / 5),
                    Perturbazione 40 (1 / 5), Done (11 / 2)] \<longrightarrow> x = 1 / 5)
     \<and> StoppingEarly \<notin> set [Initial 6, NewBest 0 (11 / 2), Perturbazione 20 (1 / 5),
                    Perturbazione 40 (1 / 5), Done (11 / 2)]"
proof -
  from tiny_ils_45 obtain res where
    r: "ils_solve tiny_data (1 / 2) (1 / 2) 1000 tiny_late 45 10 True demo_world
       = Inr (res, [Initial 6, NewBest 0 (11 / 2), Perturbazione 20 (1 / 5),
                    Perturbazione 40 (1 / 5), Done (11 / 2)])" by blast
  from ils_perturbation_intensity_fixed[OF r] r show ?thesis by blast
qed

section \<open>Simulated Annealing and Tabu Search: the best solution\<close>

lemma objv_less_trans: "objv_less a b \<Longrightarrow> objv_less b c \<Longrightarrow> objv_less a c"
  by (cases a; cases b; cases c) auto

lemma objv_less_le: "objv_less a b \<Longrightarrow> objv_le a b"
  by (cases a; cases b) auto

lemma objv_le_refl: "objv_le a a"
  by (cases a) auto

lemma improves_on_trans: "improves_on b a \<Longrightarrow> improves_on c b \<Longrightarrow> improves_on c a"
  by (auto simp: improves_on_def intro: objv_less_trans)

lemma improves_on_le:
  "improves_on b a \<Longrightarrow> objv_le (sol_objective_value b) (sol_objective_value a)"
  by (auto simp: improves_on_def objv_less_le objv_le_refl)

lemma evaluate_cases:
  assumes "evaluate data sol lambda1 lambda2 = Inr sol'"
  obtains (infeasible) "check_feasibility data (sol_allocation sol) = Inr False"
      "sol' = sol\<lparr>sol_feasible := False, sol_objective_value := Infinity\<rparr>"
    | (feasible) f1 f2 where "check_feasibility data (sol_allocation sol) = Inr True"
      "calculate_operational_cost data (sol_allocation sol) = Inr f1"
      "calculate_workload_balance data (sol_allocation sol) = Inr f2"
      "sol' = sol\<lparr>sol_feasible := True,
                   sol_objective_value := Fin (lambda1 * f1 + lambda2 * f2)\<rparr>"
proof -
  from assms obtain ok where
    c: "check_feasibility data (sol_allocation sol) = Inr ok"
    and r: "(if \<not> ok then Inr (sol\<lparr>sol_feasible := False, sol_objective_value := Infinity\<rparr>)
       else
         rbind (calculate_operational_cost data (sol_allocation sol)) (\<lambda>f1.
         rbind (calculate_workload_balance data (sol_allocation sol)) (\<lambda>f2.
           Inr (sol\<lparr>sol_feasible := True,
                   sol_objective_value := Fin (lambda1 * f1 + lambda2 * f2)\<rparr>)))) = Inr sol'"
    unfolding evaluate_def rbind_Inr_iff by blast
  show thesis
  proof (cases ok)
    case True
    with r obtain f1 f2 where
      e1: "calculate_operational_cost data (sol_allocation sol) = Inr f1"
      and e2: "calculate_workload_balance data (sol_allocation sol) = Inr f2"
      and e3: "sol' = sol\<lparr>sol_feasible := True,
                   sol_objective_value := Fin (lambda1 * f1 + lambda2 * f2)\<rparr>"
      by (auto simp: rbind_Inr_iff)
    have e0: "check_feasibility data (sol_allocation sol) = Inr True" using c True by simp
    show thesis by (rule feasible[OF e0 e1 e2 e3])
  next
    case False
    then show thesis using infeasible c r by simp
  qed
qed

lemma evaluate_consistent:
  assumes "evaluate data sol lambda1 lambda2 = Inr sol'"
  shows "consistent sol'"
  using assms by (cases rule: evaluate_cases) (simp_all add: consistent_def)

lemma get_neighbor_consistent:
  "get_neighbor data lambda1 lambda2 sol w = Inr (nb, w') \<Longrightarrow> consistent nb"
  by (auto simp: get_neighbor_def rbind_Inr_iff dest: evaluate_consistent)


lemma sa_iter_props:
  assumes "sa_iter data lambda1 lambda2 cooling_rate s = Inr (s', go)"
  shows "improves_on (best_solution s') (best_solution s)"
    and "consistent (best_solution s) \<Longrightarrow> consistent (best_solution s')"
proof -
  from assms obtain neighbor w1 where
    n: "get_neighbor data lambda1 lambda2 (sa_current s) (sa_env s) = Inr (neighbor, w1)"
    and r: "(case sa_accept (objv_minus (sol_objective_value neighbor)
                      (sol_objective_value (sa_current s))) (sa_temperature s) w1 of
            (accepted, w2) \<Rightarrow>
              Inr ((if accepted then
                       s\<lparr>sa_current := neighbor,
                         best_solution :=
                           (if objv_less (sol_objective_value neighbor)
                                 (sol_objective_value (best_solution s))
                            then neighbor else best_solution s)\<rparr>
                     else s)\<lparr>sa_temperature := sa_temperature s * cooling_rate, sa_env := w2\<rparr>,
                   \<not> sa_temperature s * cooling_rate < 1 / 100))
          = (Inr (s', go) :: py_error + sa_state \<times> bool)"
    by (auto simp: sa_iter_def rbind_Inr_iff Let_def)
  obtain accepted w2 where a: "sa_accept (objv_minus (sol_objective_value neighbor)
                      (sol_objective_value (sa_current s))) (sa_temperature s) w1 = (accepted, w2)"
    by (cases "sa_accept (objv_minus (sol_objective_value neighbor)
                      (sol_objective_value (sa_current s))) (sa_temperature s) w1")
  have b: "best_solution s' = best_solution s
        \<or> (best_solution s' = neighbor
            \<and> objv_less (sol_objective_value neighbor) (sol_objective_value (best_solution s)))"
    using r a by (cases accepted) (auto split: if_splits)
  show "improves_on (best_solution s') (best_solution s)"
    using b by (auto simp: improves_on_def)
  show "consistent (best_solution s) \<Longrightarrow> consistent (best_solution s')"
    using b get_neighbor_consistent[OF n] by auto
qed

lemma sa_run_hd:
  "sa_run data lambda1 lambda2 cooling_rate n s = Inr states \<Longrightarrow> states \<noteq> [] \<and> hd states = s"
  by (cases n) (auto simp: rbind_Inr_iff split: if_splits prod.splits)

lemma sa_run_props:
  "sa_run data lambda1 lambda2 cooling_rate n s = Inr states \<Longrightarrow>
   sorted_wrt (\<lambda>a b. improves_on (best_solution b) (best_solution a)) states
   \<and> (consistent (best_solution s) \<longrightarrow> list_all (\<lambda>x. consistent (best_solution x)) states)"
proof (induction n arbitrary: s states)
  case 0
  then show ?case by auto
next
  case (Suc n)
  from Suc.prems obtain s' go where
    it: "sa_iter data lambda1 lambda2 cooling_rate s = Inr (s', go)"
    and rest: "(if go then
         rbind (sa_run data lambda1 lambda2 cooling_rate n s') (\<lambda>states. Inr (s # states))
       else Inr [s, s']) = Inr states"
    by (auto simp: rbind_Inr_iff)
  note p = sa_iter_props[OF it]
  show ?case
  proof (cases go)
    case True
    then obtain tr where tr: "sa_run data lambda1 lambda2 cooling_rate n s' = Inr tr"
      and st: "states = s # tr" using rest by (auto simp: rbind_Inr_iff)
    note ih = Suc.IH[OF tr]
    obtain tl where tl: "tr = s' # tl" using sa_run_hd[OF tr] by (cases tr) auto
    have "\<forall>x \<in> set tr. improves_on (best_solution x) (best_solution s)"
    proof
      fix x assume "x \<in> set tr"
      then have "improves_on (best_solution x) (best_solution s')"
        using ih tl by (auto simp: improves_on_def)
      then show "improves_on (best_solution x) (best_solution s)"
        using p(1) improves_on_trans by blast
    qed
    then show ?thesis using ih st p(2) by simp
  next
    case False
    then show ?thesis using rest p by auto
  qed
qed

lemma tabu_pick_props:
  "improves_on (tabu_best (tabu_pick tenure nbs s)) (tabu_best s)
   \<and> (consistent (tabu_best s) \<longrightarrow> list_all consistent nbs \<longrightarrow>
        consistent (tabu_best (tabu_pick tenure nbs s)))"
  by (induction nbs) (auto simp: improves_on_def Let_def)

lemma gen_neighbors_consistent:
  "gen_neighbors data lambda1 lambda2 cur n w = Inr (nbs, w') \<Longrightarrow> list_all consistent nbs"
proof (induction n arbitrary: w nbs w')
  case 0
  then show ?case by auto
next
  case (Suc n)
  then show ?case
    by (auto simp: rbind_Inr_iff dest: get_neighbor_consistent)
qed

lemma tabu_iter_props:
  assumes "tabu_iter data lambda1 lambda2 tenure s = Inr s'"
  shows "improves_on (tabu_best s') (tabu_best s)"
    and "consistent (tabu_best s) \<Longrightarrow> consistent (tabu_best s')"
proof -
  from assms obtain nbs w1 where
    g: "gen_neighbors data lambda1 lambda2 (tabu_current s) 20 (tabu_env s) = Inr (nbs, w1)"
    and s': "s' = tabu_pick tenure (sort_key (\<lambda>x. objv_key (sol_objective_value x)) nbs)
                   (s\<lparr>tabu_env := w1\<rparr>)"
    by (auto simp: tabu_iter_def rbind_Inr_iff)
  have c: "list_all consistent (sort_key (\<lambda>x. objv_key (sol_objective_value x)) nbs)"
    using gen_neighbors_consistent[OF g] by (simp add: list_all_iff)
  note p = tabu_pick_props[of tenure "sort_key (\<lambda>x. objv_key (sol_objective_value x)) nbs"
      "s\<lparr>tabu_env := w1\<rparr>"]
  show "improves_on (tabu_best s') (tabu_best s)" using p s' by simp
  show "consistent (tabu_best s) \<Longrightarrow> consistent (tabu_best s')" using p s' c by simp
qed

lemma tabu_run_hd:
  "tabu_run data lambda1 lambda2 tenure n s = Inr states \<Longrightarrow> states \<noteq> [] \<and> hd states = s"
  by (cases n) (auto simp: rbind_Inr_iff)

lemma tabu_run_props:
  "tabu_run data lambda1 lambda2 tenure n s = Inr states \<Longrightarrow>
   sorted_wrt (\<lambda>a b. improves_on (tabu_best b) (tabu_best a)) states
   \<and> (consistent (tabu_best s) \<longrightarrow> list_all (\<lambda>x. consistent (tabu_best x)) states)"
proof (induction n arbitrary: s states)
  case 0
  then show ?case by auto
next
  case (Suc n)
  from Suc.prems obtain s' tr where
    it: "tabu_iter data lambda1 lambda2 tenure s = Inr s'"
    and tr: "tabu_run data lambda1 lambda2 tenure n s' = Inr tr"
    and st: "states = s # tr"
    by (auto simp: rbind_Inr_iff)
  note p = tabu_iter_props[OF it]
  note ih = Suc.IH[OF tr]
  obtain tl where tl: "tr = s' # tl" using tabu_run_hd[OF tr] by (cases tr) auto
  have "\<forall>x \<in> set tr. improves_on (tabu_best x) (tabu_best s)"
  proof
    fix x assume "x \<in> set tr"
    then have "improves_on (tabu_best x) (tabu_best s')"
      using ih tl by (auto simp: improves_on_def)
    then show "improves_on (tabu_best x) (tabu_best s)"
      using p(1) improves_on_trans by blast
  qed
  then show ?case using ih st p(2) by simp
qed













section \<open>Concrete runs of Simulated Annealing and Tabu Search\<close>

lemma tiny_sa_3:
  "\<exists>start s0 states.
     sa_init tiny_data (1 / 2) (1 / 2) 1000 demo_world = Inr (start, s0)
     \<and> sa_run tiny_data (1 / 2) (1 / 2) (95 / 100) 3 s0 = Inr states
     \<and> map (\<lambda>s. sol_objective_value (best_solution s)) states
         = [Fin (11 / 2), Fin (11 / 2), Fin (11 / 2), Fin (11 / 2)]"
  by (simp add: run_eval sa_defs sa_run_numeral
      cong: rbind_weak_cong prod.case_cong_weak sum.case_cong_weak option.case_cong_weak)


lemma tiny_tabu_1:
  "\<exists>start s0 states.
     tabu_init tiny_data (1 / 2) (1 / 2) demo_world = Inr (start, s0)
     \<and> tabu_run tiny_data (1 / 2) (1 / 2) 50 1 s0 = Inr states
     \<and> map (\<lambda>s. sol_objective_value (tabu_best s)) states = [Fin (11 / 2), Fin (11 / 2)]"
  by (simp add: run_eval sa_defs gen_neighbors_numeral tabu_run_1
      cong: rbind_weak_cong prod.case_cong_weak sum.case_cong_weak option.case_cong_weak)






lemma tiny_evaluate_late:
  "evaluate tiny_data (new_solution\<lparr>sol_allocation := tiny_late\<rparr>) (1 / 2) (1 / 2)
     = Inr \<lparr>sol_allocation = tiny_late, sol_objective_value = Fin 6, sol_feasible = True\<rparr>"
  by (simp add: run_eval sa_defs
      cong: rbind_weak_cong prod.case_cong_weak sum.case_cong_weak option.case_cong_weak)

section \<open>Properties of the search strategies\<close>

text \<open>
  Claim C3. In every run of Simulated Annealing, Tabu Search, ILS and VNS, the best
  solution of a later state is the best solution of an earlier state or has a strictly
  lower objective; the recorded best objective never increases along the states of a run.
\<close>

theorem best_objective_non_increasing:
  "(sa_run data lambda1 lambda2 cooling_rate n s = Inr states \<longrightarrow>
      sorted_wrt (\<lambda>a b. improves_on (best_solution b) (best_solution a)
          \<and> objv_le (sol_objective_value (best_solution b))
                     (sol_objective_value (best_solution a))) states)
   \<and> (tabu_run data lambda1 lambda2 tabu_tenure n ts = Inr tstates \<longrightarrow>
      sorted_wrt (\<lambda>a b. improves_on (tabu_best b) (tabu_best a)
          \<and> objv_le (sol_objective_value (tabu_best b))
                     (sol_objective_value (tabu_best a))) tstates)
   \<and> (ils_init data lambda1 lambda2 start verbose w = Inr (t0, s0) \<longrightarrow>
      ils_run data lambda1 lambda2 pw verbose t0 mts 0 n s0 = Inr istates \<longrightarrow>
      sorted_wrt (\<lambda>a b. (ils_best b = ils_best a \<or> best_feasible_value b < best_feasible_value a)
          \<and> best_feasible_value b \<le> best_feasible_value a) istates)
   \<and> (vns_init data lambda1 lambda2 start verbose w = Inr (t0, v0) \<longrightarrow>
      vns_run data lambda1 lambda2 pw verbose t0 mts 0 n v0 = Inr vstates \<longrightarrow>
      sorted_wrt (\<lambda>a b. (vns_best b = vns_best a \<or> vbest_feasible_value b < vbest_feasible_value a)
          \<and> vbest_feasible_value b \<le> vbest_feasible_value a) vstates)"
proof (intro conjI impI)
  assume "sa_run data lambda1 lambda2 cooling_rate n s = Inr states"
  then have "sorted_wrt (\<lambda>a b. improves_on (best_solution b) (best_solution a)) states"
    using sa_run_props by blast
  then show "sorted_wrt (\<lambda>a b. improves_on (best_solution b) (best_solution a)
          \<and> objv_le (sol_objective_value (best_solution b))
                     (sol_objective_value (best_solution a))) states"
    by (rule sorted_wrt_mono_rel[rotated]) (simp add: improves_on_le)
next
  assume "tabu_run data lambda1 lambda2 tabu_tenure n ts = Inr tstates"
  then have "sorted_wrt (\<lambda>a b. improves_on (tabu_best b) (tabu_best a)) tstates"
    using tabu_run_props by blast
  then show "sorted_wrt (\<lambda>a b. improves_on (tabu_best b) (tabu_best a)
          \<and> objv_le (sol_objective_value (tabu_best b))
                     (sol_objective_value (tabu_best a))) tstates"
    by (rule sorted_wrt_mono_rel[rotated]) (simp add: improves_on_le)
next
  assume i: "ils_init data lambda1 lambda2 start verbose w = Inr (t0, s0)"
    and r: "ils_run data lambda1 lambda2 pw verbose t0 mts 0 n s0 = Inr istates"
  have "sorted_wrt (\<lambda>a b. best_feasible_value b < best_feasible_value a
                      \<or> ils_best b = ils_best a) istates"
    using ils_run_mono[OF r] ils_init_inv[OF i] by simp
  then show "sorted_wrt (\<lambda>a b. (ils_best b = ils_best a
                \<or> best_feasible_value b < best_feasible_value a)
          \<and> best_feasible_value b \<le> best_feasible_value a) istates"
    by (rule sorted_wrt_mono_rel[rotated]) (auto simp: ils_best_def)
next
  assume i: "vns_init data lambda1 lambda2 start verbose w = Inr (t0, v0)"
    and r: "vns_run data lambda1 lambda2 pw verbose t0 mts 0 n v0 = Inr vstates"
  have "sorted_wrt (\<lambda>a b. vbest_feasible_value b < vbest_feasible_value a
                      \<or> vns_best b = vns_best a) vstates"
    using vns_run_mono[OF r] vns_init_inv[OF i] by simp
  then show "sorted_wrt (\<lambda>a b. (vns_best b = vns_best a
                \<or> vbest_feasible_value b < vbest_feasible_value a)
          \<and> vbest_feasible_value b \<le> vbest_feasible_value a) vstates"
    by (rule sorted_wrt_mono_rel[rotated]) (auto simp: vns_best_def)
qed

theorem best_objective_non_increasing_witness:
  "(\<exists>start s0 states.
      sa_init tiny_data (1 / 2) (1 / 2) 1000 demo_world = Inr (start, s0)
      \<and> sa_run tiny_data (1 / 2) (1 / 2) (95 / 100) 3 s0 = Inr states
      \<and> sorted_wrt (\<lambda>a b. improves_on (best_solution b) (best_solution a)
          \<and> objv_le (sol_objective_value (best_solution b))
                     (sol_objective_value (best_solution a))) states)
   \<and> (\<exists>start ts tstates.
      tabu_init tiny_data (1 / 2) (1 / 2) demo_world = Inr (start, ts)
      \<and> tabu_run tiny_data (1 / 2) (1 / 2) 50 1 ts = Inr tstates
      \<and> sorted_wrt (\<lambda>a b. improves_on (tabu_best b) (tabu_best a)
          \<and> objv_le (sol_objective_value (tabu_best b))
                     (sol_objective_value (tabu_best a))) tstates)
   \<and> (\<exists>t0 s0 istates.
      ils_init tiny_data (1 / 2) (1 / 2) tiny_late True demo_world = Inr (t0, s0)
      \<and> ils_run tiny_data (1 / 2) (1 / 2) 1000 True t0 600 0 2 s0 = Inr istates
      \<and> map best_feasible_value istates = [6, 11 / 2, 11 / 2]
      \<and> sorted_wrt (\<lambda>a b. (ils_best b = ils_best a \<or> best_feasible_value b < best_feasible_value a)
          \<and> best_feasible_value b \<le> best_feasible_value a) istates)
   \<and> (\<exists>t0 v0 vstates.
      vns_init tiny_data (1 / 2) (1 / 2) tiny_late True demo_world = Inr (t0, v0)
      \<and> vns_run tiny_data (1 / 2) (1 / 2) 1000 True t0 600 0 2 v0 = Inr vstates
      \<and> map vbest_feasible_value vstates = [6, 11 / 2, 11 / 2]
      \<and> sorted_wrt (\<lambda>a b. (vns_best b = vns_best a \<or> vbest_feasible_value b < vbest_feasible_value a)
          \<and> vbest_feasible_value b \<le> vbest_feasible_value a) vstates)"
proof -
  from tiny_sa_3 obtain start s0 states where
    si: "sa_init tiny_data (1 / 2) (1 / 2) 1000 demo_world = Inr (start, s0)"
    and sr: "sa_run tiny_data (1 / 2) (1 / 2) (95 / 100) 3 s0 = Inr states"
    by auto
  from tiny_tabu_1 obtain tstart ts tstates where
    ti: "tabu_init tiny_data (1 / 2) (1 / 2) demo_world = Inr (tstart, ts)"
    and tr: "tabu_run tiny_data (1 / 2) (1 / 2) 50 1 ts = Inr tstates"
    by auto
  from tiny_ils_2 obtain t0 i0 istates where
    ii: "ils_init tiny_data (1 / 2) (1 / 2) tiny_late True demo_world = Inr (t0, i0)"
    and ir: "ils_run tiny_data (1 / 2) (1 / 2) 1000 True t0 600 0 2 i0 = Inr istates"
    and iv: "map best_feasible_value istates = [6, 11 / 2, 11 / 2]"
    by auto
  from tiny_vns_2 obtain t1 v0 vstates where
    vi: "vns_init tiny_data (1 / 2) (1 / 2) tiny_late True demo_world = Inr (t1, v0)"
    and vr: "vns_run tiny_data (1 / 2) (1 / 2) 1000 True t1 600 0 2 v0 = Inr vstates"
    and vv: "map vbest_feasible_value vstates = [6, 11 / 2, 11 / 2]"
    by auto
  note a = best_objective_non_increasing[THEN conjunct1, rule_format, OF sr]
  note b = best_objective_non_increasing[THEN conjunct2, THEN conjunct1, rule_format, OF tr]
  note c = best_objective_non_increasing[THEN conjunct2, THEN conjunct2, THEN conjunct1,
      rule_format, OF ii ir]
  note d = best_objective_non_increasing[THEN conjunct2, THEN conjunct2, THEN conjunct2,
      rule_format, OF vi vr]
  show ?thesis
    by (intro exI conjI) (rule si sr a ti tr b ii ir iv c vi vr vv d)+
qed





section \<open>The constructive heuristic: which errors, and when\<close>

text \<open>A computation that never raises \<open>RuntimeError\<close>.\<close>

lemma no_rt_iff: "no_rt m \<longleftrightarrow> (\<forall>x. m \<noteq> Inl (RuntimeError x))"
  by (auto simp: no_rt_def split: sum.splits py_error.splits)

lemma no_rt_Inr [simp]: "no_rt (Inr v)"
  by (simp add: no_rt_iff)

lemma no_rt_Inl [simp]: "no_rt (Inl e) \<longleftrightarrow> (\<forall>x. e \<noteq> RuntimeError x)"
  by (simp add: no_rt_iff)

lemma no_rt_rbind:
  "no_rt m \<Longrightarrow> (\<And>v. no_rt (f v)) \<Longrightarrow> no_rt (rbind m f)"
  by (cases m) (auto simp: no_rt_iff)

lemma no_rt_if: "no_rt a \<Longrightarrow> no_rt b \<Longrightarrow> no_rt (if c then a else b)"
  by simp

lemma no_rt_case_prod: "(\<And>a b. no_rt (f a b)) \<Longrightarrow> no_rt (case p of (a, b) \<Rightarrow> f a b)"
  by (cases p) simp

lemma no_rt_py_lookup: "no_rt (py_lookup d k)"
  by (simp add: py_lookup_def split: option.splits)

lemma no_rt_py_index: "no_rt (py_index xs i)"
  by (simp add: py_index_def)

lemmas no_rt_intros = no_rt_rbind no_rt_if no_rt_case_prod no_rt_py_lookup no_rt_py_index
  no_rt_Inr

lemma no_rt_count_beds_loop: "no_rt (count_beds_loop data wn d al used)"
  by (induction al arbitrary: used) (auto intro!: no_rt_intros)

lemma no_rt_count_beds: "no_rt (count_beds_used_on_day data al wn d)"
  unfolding count_beds_used_on_day_def
  by (intro no_rt_intros no_rt_count_beds_loop)

lemma no_rt_feasible_days: "no_rt (feasible_days data al wn cap ds)"
  by (induction ds) (auto intro!: no_rt_intros no_rt_count_beds)

lemma no_rt_feasible_wards: "no_rt (feasible_wards data al ws)"
  by (induction ws) (auto intro!: no_rt_intros no_rt_feasible_days)

lemma no_rt_feasible: "no_rt (feasible_after_change_beds data al change)"
  unfolding feasible_after_change_beds_def by (rule no_rt_feasible_wards)

lemma no_rt_delays_loop: "no_rt (delays_loop data al ac)"
  by (induction al arbitrary: ac) (auto intro!: no_rt_intros)

lemma no_rt_ot_used_loop: "no_rt (ot_used_loop data al spec d ac)"
  by (induction al arbitrary: ac) (auto intro!: no_rt_intros)

lemma no_rt_ot_days: "no_rt (ot_days data al spec ds ac)"
proof (induction ds arbitrary: ac)
  case Nil
  then show ?case by (cases ac) auto
next
  case (Cons d ds)
  obtain a b c where ac: "ac = (a, b, c)" by (cases ac)
  show ?case unfolding ac ot_days.simps compute_ot_used_by_spec_day_def
    by (intro no_rt_intros no_rt_ot_used_loop Cons.IH)
qed

lemma no_rt_ot_specs: "no_rt (ot_specs data al specs ac)"
  by (induction specs arbitrary: ac) (auto intro!: no_rt_intros no_rt_ot_days)

lemma no_rt_workload_patients: "no_rt (workload_patients data wn w d al ac)"
  by (induction al arbitrary: ac) (auto simp: Let_def intro!: no_rt_intros)

lemma no_rt_workload_days: "no_rt (workload_days data al wn w ds xz)"
proof (induction ds arbitrary: xz)
  case Nil
  then show ?case by (cases xz) auto
next
  case (Cons d ds)
  obtain x z where xz: "xz = (x, z)" by (cases xz)
  show ?case unfolding xz workload_days.simps Let_def
    by (intro no_rt_intros no_rt_workload_patients Cons.IH)
qed

lemma no_rt_workload_wards: "no_rt (workload_wards data al ws xz)"
  by (induction ws arbitrary: xz) (auto intro!: no_rt_intros no_rt_workload_days)

lemma no_rt_components: "no_rt (compute_objective_components data al)"
  unfolding compute_objective_components_def compute_workload_normalized_and_z_def
  by (intro no_rt_intros no_rt_delays_loop no_rt_ot_specs no_rt_workload_wards)

lemma no_rt_objective_value: "no_rt (objective_value data al l1 l2)"
  unfolding objective_value_def Let_def
  by (intro no_rt_intros no_rt_components)

lemma no_rt_set_day: "no_rt (set_day pid d al)"
  unfolding set_day_def by (intro no_rt_intros)

lemma no_rt_stay_fits: "no_rt (stay_fits data al w cap ds)"
  by (induction ds) (auto intro!: no_rt_intros no_rt_count_beds)

lemma no_rt_first_fit_days: "no_rt (first_fit_days data al w cap l ds)"
  by (induction ds) (auto intro!: no_rt_intros no_rt_stay_fits)

lemma no_rt_first_fit_wards: "no_rt (first_fit_wards data al p ws)"
  by (induction ws) (auto intro!: no_rt_intros no_rt_first_fit_days split: option.splits)

lemma no_rt_repair_candidates: "no_rt (repair_candidates data wn cd al)"
  by (induction al) (auto intro!: no_rt_intros)

lemma no_rt_repair_try: "no_rt (repair_try data ms tried cs al)"
  by (induction cs arbitrary: tried)
    (auto intro!: no_rt_intros no_rt_set_day no_rt_feasible)

lemma no_rt_tiny_repair:
  "no_rt (tiny_repair_shift_same_ward_day_forward data al wn cd ms wd)"
  unfolding tiny_repair_shift_same_ward_day_forward_def
  by (intro no_rt_intros no_rt_repair_candidates no_rt_repair_try)

lemma no_rt_repair_checks: "no_rt (repair_checks data w ds al wd)"
  by (induction ds arbitrary: al wd)
    (auto intro!: no_rt_intros no_rt_count_beds no_rt_tiny_repair)

lemma no_rt_repair_days: "no_rt (repair_days data w l ds al wd)"
  by (induction ds arbitrary: al wd) (auto intro!: no_rt_intros no_rt_repair_checks)

lemma no_rt_repair_wards: "no_rt (repair_wards data p ws al wd)"
  by (induction ws arbitrary: al wd) (auto intro!: no_rt_intros no_rt_repair_days)

lemma no_rt_score_trial: "no_rt (score_trial data al pid w d l1 l2)"
  unfolding score_trial_def Let_def
  by (intro no_rt_intros no_rt_feasible no_rt_objective_value)

lemma no_rt_fallback_days: "no_rt (fallback_days data al pid w ds best)"
proof (induction ds arbitrary: best)
  case Nil
  then show ?case by (cases best) auto
next
  case (Cons d ds)
  obtain a b where best: "best = (a, b)" by (cases best)
  show ?case unfolding best fallback_days.simps
    by (intro no_rt_intros no_rt_score_trial Cons.IH)
qed

lemma no_rt_fallback_wards: "no_rt (fallback_wards data al pid p ws best)"
  by (induction ws arbitrary: best) (auto intro!: no_rt_intros no_rt_fallback_days)

lemma no_rt_D: "no_rt m \<Longrightarrow> m \<noteq> Inl (RuntimeError x)"
  by (simp add: no_rt_iff)

lemma place_patient_saturation:
  "place_patient data alloc (pid, p) wd = Inl (RuntimeError x)
     \<longleftrightarrow> x = pid \<and> unplaceable data alloc (pid, p) wd"
proof -
  let ?ws = "compatible_wards_for_patient data p"
  note n1 = no_rt_D[OF no_rt_first_fit_wards, of data alloc p ?ws x]
  show ?thesis
  proof (cases "first_fit_wards data alloc p ?ws")
    case (Inl e)
    then show ?thesis using n1
      by (auto simp: place_patient_def unplaceable_def Let_def)
  next
    case r1: (Inr r)
    show ?thesis
    proof (cases r)
      case (Some wd1)
      then show ?thesis using r1
        by (auto simp: place_patient_def unplaceable_def Let_def split: prod.splits)
    next
      case None
      show ?thesis
      proof (cases "repair_wards data p ?ws alloc wd")
        case (Inl e)
        then show ?thesis
          using r1 None no_rt_D[OF no_rt_repair_wards, of data p ?ws alloc wd x]
          by (auto simp: place_patient_def unplaceable_def Let_def)
      next
        case r2: (Inr a2)
        obtain alloc2 wd2 where a2: "a2 = (alloc2, wd2)" by (cases a2)
        note n2 = no_rt_D[OF no_rt_first_fit_wards, of data alloc2 p ?ws x]
        show ?thesis
        proof (cases "first_fit_wards data alloc2 p ?ws")
          case (Inl e)
          then show ?thesis using r1 None r2 a2 n2
            by (auto simp: place_patient_def unplaceable_def Let_def)
        next
          case r3: (Inr r')
          show ?thesis
          proof (cases r')
            case (Some wd3)
            then show ?thesis using r1 None r2 a2 r3
              by (auto simp: place_patient_def unplaceable_def Let_def split: prod.splits)
          next
            case n3: None
            note n4 = no_rt_D[OF no_rt_fallback_wards, of data alloc2 pid p ?ws "(Infinity, None)" x]
            show ?thesis
            proof (cases "fallback_wards data alloc2 pid p ?ws (Infinity, None)")
              case (Inl e)
              then show ?thesis using r1 None r2 a2 r3 n3 n4
                by (auto simp: place_patient_def unplaceable_def Let_def)
            next
              case r4: (Inr b)
              obtain sc bw where b: "b = (sc, bw)" by (cases b)
              show ?thesis using r1 None r2 a2 r3 n3 r4 b
                by (cases bw)
                  (auto simp: place_patient_def unplaceable_def Let_def split: prod.splits)
            qed
          qed
        qed
      qed
    qed
  qed
qed

lemma greedy_loop_saturation:
  "greedy_loop data order alloc wd = Inl (RuntimeError x)
     \<longleftrightarrow> (\<exists>before p after alloc' wd'.
            order = before @ (x, p) # after
            \<and> greedy_loop data before alloc wd = Inr (alloc', wd')
            \<and> unplaceable data alloc' (x, p) wd')"
proof (induction order arbitrary: alloc wd)
  case Nil
  then show ?case by simp
next
  case (Cons entry rest)
  obtain pid p where e: "entry = (pid, p)" by (cases entry)
  show ?case
  proof (cases "place_patient data alloc entry wd")
    case (Inl err)
    have l: "greedy_loop data (entry # rest) alloc wd = Inl (RuntimeError x)
        \<longleftrightarrow> x = pid \<and> unplaceable data alloc (pid, p) wd"
      using Inl place_patient_saturation[of data alloc pid p wd x] e by auto
    have r: "(\<exists>before p' after alloc' wd'.
            entry # rest = before @ (x, p') # after
            \<and> greedy_loop data before alloc wd = Inr (alloc', wd')
            \<and> unplaceable data alloc' (x, p') wd')
        \<longleftrightarrow> x = pid \<and> unplaceable data alloc (pid, p) wd"
    proof
      assume "\<exists>before p' after alloc' wd'.
            entry # rest = before @ (x, p') # after
            \<and> greedy_loop data before alloc wd = Inr (alloc', wd')
            \<and> unplaceable data alloc' (x, p') wd'"
      then obtain before p' after alloc' wd' where
        o: "entry # rest = before @ (x, p') # after"
        and g: "greedy_loop data before alloc wd = Inr (alloc', wd')"
        and u: "unplaceable data alloc' (x, p') wd'" by blast
      show "x = pid \<and> unplaceable data alloc (pid, p) wd"
      proof (cases before)
        case Nil
        then show ?thesis using o g u e by auto
      next
        case (Cons b bs)
        then have "b = entry" using o by simp
        then show ?thesis using g Cons Inl by simp
      qed
    next
      assume a: "x = pid \<and> unplaceable data alloc (pid, p) wd"
      have "entry # rest = [] @ (x, p) # rest" using a e by simp
      moreover have "greedy_loop data [] alloc wd = Inr (alloc, wd)" by simp
      ultimately show "\<exists>before p' after alloc' wd'.
            entry # rest = before @ (x, p') # after
            \<and> greedy_loop data before alloc wd = Inr (alloc', wd')
            \<and> unplaceable data alloc' (x, p') wd'"
        using a by blast
    qed
    show ?thesis using l r by simp
  next
    case (Inr a1)
    obtain alloc1 wd1 where a1: "a1 = (alloc1, wd1)" by (cases a1)
    have nu: "\<not> unplaceable data alloc (pid, p) wd"
      using place_patient_saturation[of data alloc pid p wd pid] Inr e by auto
    have l: "greedy_loop data (entry # rest) alloc wd = Inl (RuntimeError x)
        \<longleftrightarrow> greedy_loop data rest alloc1 wd1 = Inl (RuntimeError x)"
      using Inr a1 by simp
    have r: "(\<exists>before p' after alloc' wd'.
            entry # rest = before @ (x, p') # after
            \<and> greedy_loop data before alloc wd = Inr (alloc', wd')
            \<and> unplaceable data alloc' (x, p') wd')
        \<longleftrightarrow> (\<exists>before p' after alloc' wd'.
            rest = before @ (x, p') # after
            \<and> greedy_loop data before alloc1 wd1 = Inr (alloc', wd')
            \<and> unplaceable data alloc' (x, p') wd')"
    proof
      assume "\<exists>before p' after alloc' wd'.
            entry # rest = before @ (x, p') # after
            \<and> greedy_loop data before alloc wd = Inr (alloc', wd')
            \<and> unplaceable data alloc' (x, p') wd'"
      then obtain before p' after alloc' wd' where
        o: "entry # rest = before @ (x, p') # after"
        and g: "greedy_loop data before alloc wd = Inr (alloc', wd')"
        and u: "unplaceable data alloc' (x, p') wd'" by blast
      show "\<exists>before p' after alloc' wd'.
            rest = before @ (x, p') # after
            \<and> greedy_loop data before alloc1 wd1 = Inr (alloc', wd')
            \<and> unplaceable data alloc' (x, p') wd'"
      proof (cases before)
        case Nil
        then have "entry = (x, p')" "alloc' = alloc" "wd' = wd" using o g by simp_all
        then show ?thesis using u nu e by simp
      next
        case (Cons b bs)
        then have b: "b = entry" and rs: "rest = bs @ (x, p') # after" using o by simp_all
        have "greedy_loop data bs alloc1 wd1 = Inr (alloc', wd')"
          using g Cons b Inr a1 by simp
        then show ?thesis using rs u by blast
      qed
    next
      assume "\<exists>before p' after alloc' wd'.
            rest = before @ (x, p') # after
            \<and> greedy_loop data before alloc1 wd1 = Inr (alloc', wd')
            \<and> unplaceable data alloc' (x, p') wd'"
      then obtain before p' after alloc' wd' where
        o: "rest = before @ (x, p') # after"
        and g: "greedy_loop data before alloc1 wd1 = Inr (alloc', wd')"
        and u: "unplaceable data alloc' (x, p') wd'" by blast
      have "entry # rest = (entry # before) @ (x, p') # after" using o by simp
      moreover have "greedy_loop data (entry # before) alloc wd = Inr (alloc', wd')"
        using g Inr a1 by simp
      ultimately show "\<exists>before p' after alloc' wd'.
            entry # rest = before @ (x, p') # after
            \<and> greedy_loop data before alloc wd = Inr (alloc', wd')
            \<and> unplaceable data alloc' (x, p') wd'"
        using u by blast
    qed
    show ?thesis using l r Cons.IH[of alloc1 wd1] by simp
  qed
qed

lemma greedy_saturation_iff:
  "greedy_feasible_by_window_strict data wd = Inl (RuntimeError x)
     \<longleftrightarrow> (\<exists>before p after alloc' wd'.
            patients_order data = before @ (x, p) # after
            \<and> greedy_loop data before [] wd = Inr (alloc', wd')
            \<and> unplaceable data alloc' (x, p) wd')"
proof -
  have "greedy_feasible_by_window_strict data wd = Inl (RuntimeError x)
      \<longleftrightarrow> greedy_loop data (patients_order data) [] wd = Inl (RuntimeError x)"
    by (cases "greedy_loop data (patients_order data) [] wd")
      (auto simp: greedy_feasible_by_window_strict_def)
  then show ?thesis using greedy_loop_saturation by simp
qed

lemmas greedy_eval =
  search_defs saturated_data_fields Let_def min_def max_def place_patient_def
  score_trial_def saturated_two_def saturated_patient_def

lemma shuffle_pair:
  "\<exists>w'. random_shuffle [a, b] wd = ([a, b], w') \<or> random_shuffle [a, b] wd = ([b, a], w')"
proof -
  obtain j w' where r: "randbelow (Suc (Suc 0)) wd = (j, w')" by (cases "randbelow (Suc (Suc 0)) wd")
  have "j < 2" using r
    by (auto simp: randbelow_def next_rand_def numeral_2_eq_2 split: prod.splits)
  then have "j = 0 \<or> j = 1" by auto
  then show ?thesis using r by (auto simp: random_shuffle_def)
qed

lemma saturated_order:
  "patients_order saturated_data =
     [(''p1'', saturated_patient), (''p2'', saturated_patient), (''p3'', saturated_patient)]"
  by (simp add: patients_order_def saturated_data_fields saturated_patient_def)

lemma saturated_first_two:
  "greedy_loop saturated_data [(''p1'', saturated_patient), (''p2'', saturated_patient)] [] wd
     = Inr (saturated_two, wd)"
  by (simp add: greedy_eval
      cong: rbind_weak_cong prod.case_cong_weak sum.case_cong_weak option.case_cong_weak)

lemma saturated_candidates:
  "repair_candidates saturated_data ''W'' 0 saturated_two = Inr [''p1'', ''p2'']"
  by (simp add: greedy_eval
      cong: rbind_weak_cong prod.case_cong_weak sum.case_cong_weak option.case_cong_weak)

lemma saturated_try:
  "repair_try saturated_data 3 0 [''p1'', ''p2''] saturated_two = Inr (saturated_two, False)"
  "repair_try saturated_data 3 0 [''p2'', ''p1''] saturated_two = Inr (saturated_two, False)"
  by (simp_all add: greedy_eval
      cong: rbind_weak_cong prod.case_cong_weak sum.case_cong_weak option.case_cong_weak)

lemma saturated_repair:
  "\<exists>w'. tiny_repair_shift_same_ward_day_forward saturated_data saturated_two ''W'' 0 3 wd
     = Inr (saturated_two, False, w')"
  using shuffle_pair[of "''p1''" "''p2''" wd]
  by (auto simp add: tiny_repair_shift_same_ward_day_forward_def saturated_candidates
      saturated_try simp del: repair_try.simps)

lemma saturated_repair_wards:
  "\<exists>w'. repair_wards saturated_data saturated_patient [''W''] saturated_two wd
     = Inr (saturated_two, w')"
proof -
  obtain w' where t: "tiny_repair_shift_same_ward_day_forward saturated_data saturated_two ''W'' 0 3 wd
     = Inr (saturated_two, False, w')" using saturated_repair by blast
  have c: "count_beds_used_on_day saturated_data saturated_two ''W'' 0 = Inr 2"
    by (simp add: greedy_eval
      cong: rbind_weak_cong prod.case_cong_weak sum.case_cong_weak option.case_cong_weak)
  have l: "py_lookup (wards saturated_data) ''W'' = Inr \<lparr>bed_capacity = 2, workload_capacity = 1, major_specialization = ''s'',
                minor_specializations = [], carryover_patients = [0],
                carryover_workload = [0]\<rparr>"
    by (simp add: saturated_data_fields py_lookup_def)
  have "repair_checks saturated_data ''W'' [0] saturated_two wd = Inr (saturated_two, w')"
    by (simp add: c l t)
  then have "repair_wards saturated_data saturated_patient [''W''] saturated_two wd
     = Inr (saturated_two, w')"
    by (simp add: saturated_patient_def saturated_data_fields py_range_def upto.simps)
  then show ?thesis by blast
qed

lemma saturated_third:
  "unplaceable saturated_data saturated_two (''p3'', saturated_patient) wd"
proof -
  have cw: "compatible_wards_for_patient saturated_data saturated_patient = [''W'']"
    by (simp add: greedy_eval)
  obtain w' where r: "repair_wards saturated_data saturated_patient [''W''] saturated_two wd
     = Inr (saturated_two, w')" using saturated_repair_wards by blast
  have f: "first_fit_wards saturated_data saturated_two saturated_patient [''W''] = Inr None"
    by (simp add: greedy_eval
      cong: rbind_weak_cong prod.case_cong_weak sum.case_cong_weak option.case_cong_weak)
  have b: "fallback_wards saturated_data saturated_two ''p3'' saturated_patient [''W''] (Infinity, None)
     = Inr (Infinity, None)"
    by (simp add: greedy_eval
      cong: rbind_weak_cong prod.case_cong_weak sum.case_cong_weak option.case_cong_weak)
  show ?thesis
    by (simp add: unplaceable_def cw r f b Let_def
        del: first_fit_wards.simps repair_wards.simps fallback_wards.simps)
qed

lemma saturated_raises:
  "greedy_feasible_by_window_strict saturated_data wd = Inl (RuntimeError ''p3'')"
proof -
  have "patients_order saturated_data =
      [(''p1'', saturated_patient), (''p2'', saturated_patient)] @ (''p3'', saturated_patient) # []"
    by (simp add: saturated_order)
  then show ?thesis
    using saturated_first_two[of wd] saturated_third[of wd]
    unfolding greedy_saturation_iff by blast
qed

lemma ex_bool: "\<exists>b. b" "\<exists>b. \<not> b"
  by (rule exI[of _ True], simp) (rule exI[of _ False], simp)

lemma compatible_wards_sub:
  "set (compatible_wards_for_patient data p) \<subseteq> fst ` set (wards data)"
  by (auto simp: compatible_wards_for_patient_def)

lemma ward_lookup:
  assumes "wf_data data" "w \<in> fst ` set (wards data)"
  obtains wr where "py_lookup (wards data) w = Inr wr" "(w, wr) \<in> set (wards data)"
    "num_days data \<le> int (length (carryover_patients wr))"
proof -
  obtain wr where l: "py_lookup (wards data) w = Inr wr" and m: "map_of (wards data) w = Some wr"
    using py_lookup_mem[OF assms(2)] by blast
  have mem: "(w, wr) \<in> set (wards data)" using m by (rule map_of_SomeD)
  show ?thesis using that[OF l mem] wf_ward(1)[OF assms(1) mem] by blast
qed

lemma count_beds_total:
  assumes "wf_data data" "w \<in> fst ` set (wards data)" "0 \<le> d" "d < num_days data"
    "keys_ok data alloc"
  shows "\<exists>n. count_beds_used_on_day data alloc w d = Inr n"
proof -
  obtain wr where mem: "(w, wr) \<in> set (wards data)"
    and len: "num_days data \<le> int (length (carryover_patients wr))"
    using ward_lookup[OF assms(1,2)] by blast
  have dist: "distinct (map fst (wards data))" using assms(1) by (simp add: wf_data_def)
  have "d < int (length (carryover_patients wr))" using len assms(4) by simp
  then show ?thesis using count_beds_used_eq[OF dist mem assms(3) _ assms(5)] by blast
qed

lemma stay_fits_total:
  assumes "wf_data data" "w \<in> fst ` set (wards data)" "keys_ok data alloc"
  shows "\<forall>d\<in>set ds. 0 \<le> d \<and> d < num_days data \<Longrightarrow> \<exists>b. stay_fits data alloc w cap ds = Inr b"
proof (induction ds)
  case Nil
  then show ?case by (auto intro: ex_bool)
next
  case (Cons d ds)
  obtain n where "count_beds_used_on_day data alloc w d = Inr n"
    using count_beds_total[OF assms(1,2) _ _ assms(3), of d] Cons.prems by auto
  then show ?case using Cons by (auto intro: ex_bool)
qed

lemma first_fit_days_total:
  assumes "wf_data data" "w \<in> fst ` set (wards data)" "keys_ok data alloc"
  shows "\<forall>d\<in>set ds. 0 \<le> d \<Longrightarrow> \<exists>r. first_fit_days data alloc w cap l ds = Inr r"
proof (induction ds)
  case Nil
  then show ?case by simp
next
  case (Cons d ds)
  have "0 \<le> d" using Cons.prems by simp
  then have "\<forall>e\<in>set (py_range d (min (d + l) (num_days data))). 0 \<le> e \<and> e < num_days data"
    by (auto simp: set_py_range)
  then obtain b where "stay_fits data alloc w cap (py_range d (min (d + l) (num_days data))) = Inr b"
    using stay_fits_total[OF assms] by blast
  then show ?case using Cons by simp
qed

lemma window_days_nonneg:
  "0 \<le> earliest p \<Longrightarrow> \<forall>d\<in>set (py_range (earliest p) (min (latest p + 1) (num_days data))). 0 \<le> d"
  by (auto simp: set_py_range)

lemma first_fit_wards_total:
  assumes "wf_data data" "keys_ok data alloc" "0 \<le> earliest p"
  shows "set ws \<subseteq> fst ` set (wards data) \<Longrightarrow> \<exists>r. first_fit_wards data alloc p ws = Inr r"
proof (induction ws)
  case Nil
  then show ?case by simp
next
  case (Cons w ws)
  have w: "w \<in> fst ` set (wards data)" using Cons.prems by simp
  obtain wr where l: "py_lookup (wards data) w = Inr wr"
    using ward_lookup[OF assms(1) w] by blast
  obtain r where "first_fit_days data alloc w (bed_capacity wr) (los p)
              (py_range (earliest p) (min (latest p + 1) (num_days data))) = Inr r"
    using first_fit_days_total[OF assms(1) w assms(2) window_days_nonneg[OF assms(3)]] by blast
  then show ?case using Cons l by (cases r) auto
qed

lemma keys_update: "fst ` set (AList.update k v al) = insert k (fst ` set al)"
  using AList.dom_update[of k v al] by auto

lemma set_day_total:
  assumes "pid \<in> fst ` set al"
  shows "\<exists>al'. set_day pid d al = Inr al' \<and> fst ` set al' = fst ` set al"
proof -
  obtain a where "py_lookup al pid = Inr a" using py_lookup_mem[OF assms] by blast
  then show ?thesis using assms by (auto simp: set_day_def keys_update)
qed

lemma feasible_total:
  assumes "wf_data data" "keys_ok data alloc"
  shows "\<exists>b. feasible_after_change_beds data alloc None = Inr b"
  using feasible_wards_eq[OF wf_carry_ok[OF assms(1)] assms(2), of "wards data"]
  by (simp add: feasible_after_change_beds_def)

lemma feasible_change_total:
  assumes "wf_data data" "keys_ok data alloc" "pid \<in> fst ` set (patients data)"
  shows "\<exists>b. feasible_after_change_beds data alloc (Some (pid, w, d)) = Inr b"
proof -
  have "keys_ok data (AList.update pid \<lparr>ward = w, day = d\<rparr> alloc)"
    using assms(2,3) by (simp add: keys_update)
  then show ?thesis
    using feasible_wards_eq[OF wf_carry_ok[OF assms(1)], of _ "wards data"]
    by (simp add: feasible_after_change_beds_def)
qed

lemma repair_candidates_total:
  "keys_ok data alloc \<Longrightarrow>
   \<exists>cs. repair_candidates data wn cd alloc = Inr cs \<and> set cs \<subseteq> fst ` set alloc"
proof (induction alloc)
  case Nil
  then show ?case by simp
next
  case (Cons e rest)
  obtain pid a where e: "e = (pid, a)" by (cases e)
  obtain cs where cs: "repair_candidates data wn cd rest = Inr cs" "set cs \<subseteq> fst ` set rest"
    using Cons by auto
  have "pid \<in> fst ` set (patients data)" using Cons.prems e by auto
  then obtain p where "py_lookup (patients data) pid = Inr p"
    using py_lookup_mem by blast
  then show ?case using cs e by auto
qed

lemma repair_try_total:
  assumes "wf_data data" "keys_ok data alloc"
  shows "set cs \<subseteq> fst ` set alloc \<Longrightarrow>
    \<exists>alloc' b. repair_try data ms tried cs alloc = Inr (alloc', b)
       \<and> fst ` set alloc' = fst ` set alloc"
proof (induction cs arbitrary: tried)
  case Nil
  then show ?case by (auto intro: ex_bool)
next
  case (Cons pid rest)
  have pa: "pid \<in> fst ` set alloc" using Cons.prems by simp
  then have pp: "pid \<in> fst ` set (patients data)" using assms(2) by auto
  obtain p where p: "py_lookup (patients data) pid = Inr p" using py_lookup_mem[OF pp] by blast
  obtain a where a: "py_lookup alloc pid = Inr a" using py_lookup_mem[OF pa] by blast
  obtain trial where t: "set_day pid (day a + 1) alloc = Inr trial"
    and tk: "fst ` set trial = fst ` set alloc"
    using set_day_total[OF pa] by blast
  have tko: "keys_ok data trial" using tk assms(2) by simp
  obtain ok where ok: "feasible_after_change_beds data trial None = Inr ok"
    using feasible_total[OF assms(1) tko] by blast
  obtain alloc' b where r: "repair_try data ms (tried + 1) rest alloc = Inr (alloc', b)"
    "fst ` set alloc' = fst ` set alloc"
    using Cons.IH[of "tried + 1"] Cons.prems by auto
  show ?case using p a t ok r tk by auto
qed

lemma shuffle_loop_subset:
  "i < length xs \<Longrightarrow> set (fst (shuffle_loop i xs w)) \<subseteq> set xs"
proof (induction i arbitrary: xs w)
  case 0
  then show ?case by simp
next
  case (Suc i)
  obtain j w' where r: "randbelow (Suc (Suc i)) w = (j, w')" by (cases "randbelow (Suc (Suc i)) w")
  have j: "j < Suc (Suc i)" using r
    by (auto simp: randbelow_def next_rand_def split: prod.splits)
  let ?xs = "xs[Suc i := xs ! j, j := xs ! Suc i]"
  have jl: "j < length xs" using j Suc.prems by simp
  have "set ?xs \<subseteq> insert (xs ! Suc i) (set (xs[Suc i := xs ! j]))"
    by (rule set_update_subset_insert)
  also have "\<dots> \<subseteq> insert (xs ! Suc i) (insert (xs ! j) (set xs))"
    using set_update_subset_insert[of xs "Suc i" "xs ! j"] by auto
  also have "\<dots> \<subseteq> set xs" using Suc.prems jl by simp
  finally have s: "set ?xs \<subseteq> set xs" .
  have "i < length ?xs" using Suc.prems by simp
  from Suc.IH[OF this, of w'] s show ?case using r by auto
qed

lemma random_shuffle_subset: "set (fst (random_shuffle xs w)) \<subseteq> set xs"
proof (cases xs)
  case Nil
  then show ?thesis by (simp add: random_shuffle_def)
next
  case (Cons x rest)
  then have "length xs - 1 < length xs" by simp
  then show ?thesis unfolding random_shuffle_def by (rule shuffle_loop_subset)
qed

lemma tiny_repair_total:
  assumes "wf_data data" "keys_ok data alloc"
  shows "\<exists>alloc' m w'. tiny_repair_shift_same_ward_day_forward data alloc wn cd ms w
           = Inr (alloc', m, w') \<and> fst ` set alloc' = fst ` set alloc"
proof -
  obtain cs where cs: "repair_candidates data wn cd alloc = Inr cs" "set cs \<subseteq> fst ` set alloc"
    using repair_candidates_total[OF assms(2)] by blast
  obtain sh w1 where sh: "random_shuffle cs w = (sh, w1)" by (cases "random_shuffle cs w")
  have "set sh \<subseteq> set cs" using random_shuffle_subset[of cs w] sh by simp
  then have "set sh \<subseteq> fst ` set alloc" using cs(2) by blast
  then obtain alloc' b where "repair_try data ms 0 sh alloc = Inr (alloc', b)"
    "fst ` set alloc' = fst ` set alloc"
    using repair_try_total[OF assms] by blast
  then show ?thesis using cs sh
    by (simp add: tiny_repair_shift_same_ward_day_forward_def)
qed

lemma repair_checks_total:
  assumes "wf_data data" "w \<in> fst ` set (wards data)"
  shows "keys_ok data alloc \<Longrightarrow> \<forall>d\<in>set ds. 0 \<le> d \<and> d < num_days data \<Longrightarrow>
    \<exists>alloc' wd'. repair_checks data w ds alloc wd = Inr (alloc', wd')
       \<and> fst ` set alloc' = fst ` set alloc"
proof (induction ds arbitrary: alloc wd)
  case Nil
  then show ?case by simp
next
  case (Cons d ds)
  obtain n where n: "count_beds_used_on_day data alloc w d = Inr n"
    using count_beds_total[OF assms _ _ Cons.prems(1), of d] Cons.prems(2) by auto
  obtain wr where l: "py_lookup (wards data) w = Inr wr"
    using ward_lookup[OF assms] by blast
  obtain alloc1 m wd1 where t: "tiny_repair_shift_same_ward_day_forward data alloc w d 3 wd
           = Inr (alloc1, m, wd1)" and e1: "fst ` set alloc1 = fst ` set alloc"
    using tiny_repair_total[OF assms(1) Cons.prems(1)] by blast
  have k1: "keys_ok data alloc1" using e1 Cons.prems(1) by simp
  have ds: "\<forall>d\<in>set ds. 0 \<le> d \<and> d < num_days data" using Cons.prems(2) by simp
  obtain alloc2 wd2 where r2: "repair_checks data w ds alloc1 wd1 = Inr (alloc2, wd2)"
    "fst ` set alloc2 = fst ` set alloc1" using Cons.IH[OF k1 ds] by blast
  obtain alloc3 wd3 where r3: "repair_checks data w ds alloc wd = Inr (alloc3, wd3)"
    "fst ` set alloc3 = fst ` set alloc" using Cons.IH[OF Cons.prems(1) ds] by blast
  show ?case using n l t e1 r2 r3 by auto
qed

lemma repair_days_total:
  assumes "wf_data data" "w \<in> fst ` set (wards data)"
  shows "keys_ok data alloc \<Longrightarrow> \<forall>d\<in>set ds. 0 \<le> d \<Longrightarrow>
    \<exists>alloc' wd'. repair_days data w l ds alloc wd = Inr (alloc', wd')
       \<and> fst ` set alloc' = fst ` set alloc"
proof (induction ds arbitrary: alloc wd)
  case Nil
  then show ?case by simp
next
  case (Cons d ds)
  have "0 \<le> d" using Cons.prems(2) by simp
  then have "\<forall>e\<in>set (py_range d (min (d + l) (num_days data))). 0 \<le> e \<and> e < num_days data"
    by (auto simp: set_py_range)
  then obtain alloc1 wd1 where
    c: "repair_checks data w (py_range d (min (d + l) (num_days data))) alloc wd = Inr (alloc1, wd1)"
    and e1: "fst ` set alloc1 = fst ` set alloc"
    using repair_checks_total[OF assms Cons.prems(1)] by blast
  have k1: "keys_ok data alloc1" using e1 Cons.prems(1) by simp
  have ds: "\<forall>d\<in>set ds. 0 \<le> d" using Cons.prems(2) by simp
  show ?case using c e1 Cons.IH[OF k1 ds, of wd1] by auto
qed

lemma repair_wards_total:
  assumes "wf_data data" "0 \<le> earliest p"
  shows "keys_ok data alloc \<Longrightarrow> set ws \<subseteq> fst ` set (wards data) \<Longrightarrow>
    \<exists>alloc' wd'. repair_wards data p ws alloc wd = Inr (alloc', wd')
       \<and> fst ` set alloc' = fst ` set alloc"
proof (induction ws arbitrary: alloc wd)
  case Nil
  then show ?case by simp
next
  case (Cons w ws)
  have w: "w \<in> fst ` set (wards data)" using Cons.prems(2) by simp
  obtain alloc1 wd1 where
    c: "repair_days data w (los p) (py_range (earliest p) (min (latest p + 1) (num_days data)))
          alloc wd = Inr (alloc1, wd1)"
    and e1: "fst ` set alloc1 = fst ` set alloc"
    using repair_days_total[OF assms(1) w Cons.prems(1) window_days_nonneg[OF assms(2)]] by blast
  have k1: "keys_ok data alloc1" using e1 Cons.prems(1) by simp
  have ws: "set ws \<subseteq> fst ` set (wards data)" using Cons.prems(2) by simp
  show ?case using c e1 Cons.IH[OF k1 ws, of wd1] by auto
qed

lemma score_trial_total:
  assumes "wf_data data" "keys_ok data alloc" "pid \<in> fst ` set (patients data)"
  shows "\<exists>s. score_trial data alloc pid w d l1 l2 = Inr s"
proof -
  obtain b where b: "feasible_after_change_beds data alloc (Some (pid, w, d)) = Inr b"
    using feasible_change_total[OF assms] by blast
  have "keys_ok data (AList.update pid \<lparr>ward = w, day = d\<rparr> alloc)"
    using assms(2,3) by (simp add: keys_update)
  then obtain v where "objective_value data (AList.update pid \<lparr>ward = w, day = d\<rparr> alloc) l1 l2 = Inr v"
    using objective_value_total[OF assms(1)] by blast
  then show ?thesis using b by (simp add: score_trial_def)
qed

lemma fallback_days_total:
  assumes "wf_data data" "keys_ok data alloc" "pid \<in> fst ` set (patients data)"
  shows "\<exists>r. fallback_days data alloc pid w ds best = Inr r"
proof (induction ds arbitrary: best)
  case Nil
  then show ?case by simp
next
  case (Cons d ds)
  obtain bs bw where b: "best = (bs, bw)" by (cases best)
  obtain s where "score_trial data alloc pid w d (1 / 2) (1 / 2) = Inr s"
    using score_trial_total[OF assms] by blast
  then show ?case using b Cons.IH by simp
qed

lemma fallback_wards_total:
  assumes "wf_data data" "keys_ok data alloc" "pid \<in> fst ` set (patients data)"
  shows "\<exists>r. fallback_wards data alloc pid p ws best = Inr r"
proof (induction ws arbitrary: best)
  case Nil
  then show ?case by simp
next
  case (Cons w ws)
  obtain r where "fallback_days data alloc pid w
              (py_range (earliest p) (min (latest p + 1) (num_days data))) best = Inr r"
    using fallback_days_total[OF assms] by blast
  then show ?case using Cons.IH by simp
qed

lemma ward_record:
  assumes "wf_data data" "w \<in> fst ` set (wards data)"
  obtains wr where "map_of (wards data) w = Some wr" "py_lookup (wards data) w = Inr wr"
    "(w, wr) \<in> set (wards data)"
proof -
  obtain wr where l: "py_lookup (wards data) w = Inr wr" and m: "map_of (wards data) w = Some wr"
    using py_lookup_mem[OF assms(2)] by blast
  show ?thesis using that[OF m l map_of_SomeD[OF m]] .
qed

lemma stay_fits_eq:
  assumes "wf_data data" "(w, wr) \<in> set (wards data)" "keys_ok data alloc"
  shows "\<forall>d\<in>set ds. 0 \<le> d \<and> d < num_days data \<Longrightarrow>
    stay_fits data alloc w cap ds
      = Inr (list_all (\<lambda>d. occupancy data alloc w wr d < cap) ds)"
proof (induction ds)
  case Nil
  then show ?case by simp
next
  case (Cons d ds)
  have dist: "distinct (map fst (wards data))" using assms(1) by (simp add: wf_data_def)
  have len: "num_days data \<le> int (length (carryover_patients wr))"
    using wf_ward(1)[OF assms(1,2)] .
  have d: "0 \<le> d" "d < int (length (carryover_patients wr))" using Cons.prems len by auto
  have "count_beds_used_on_day data alloc w d = Inr (occupancy data alloc w wr d)"
    using count_beds_used_eq[OF dist assms(2) d assms(3)] .
  then show ?case using Cons by auto
qed

lemma first_fit_days_eq:
  assumes "wf_data data" "(w, wr) \<in> set (wards data)" "keys_ok data alloc"
  shows "\<forall>d\<in>set ds. 0 \<le> d \<Longrightarrow>
    \<exists>r. first_fit_days data alloc w (bed_capacity wr) (los p) ds = Inr r
       \<and> (r = None \<longleftrightarrow> list_all (\<lambda>d. \<not> fits data alloc p w d) ds)"
proof (induction ds)
  case Nil
  then show ?case by simp
next
  case (Cons d ds)
  have dist: "distinct (map fst (wards data))" using assms(1) by (simp add: wf_data_def)
  have m: "map_of (wards data) w = Some wr" using dist assms(2) by simp
  have "0 \<le> d" using Cons.prems by simp
  then have "\<forall>e\<in>set (py_range d (min (d + los p) (num_days data))). 0 \<le> e \<and> e < num_days data"
    by (auto simp: set_py_range)
  then have s: "stay_fits data alloc w (bed_capacity wr) (py_range d (min (d + los p) (num_days data)))
      = Inr (fits data alloc p w d)"
    using stay_fits_eq[OF assms] by (simp add: fits_def m)
  have ih: "\<exists>r. first_fit_days data alloc w (bed_capacity wr) (los p) ds = Inr r
       \<and> (r = None \<longleftrightarrow> list_all (\<lambda>d. \<not> fits data alloc p w d) ds)"
    using Cons by simp
  show ?case using s ih by auto
qed

lemma first_fit_wards_eq:
  assumes "wf_data data" "keys_ok data alloc" "0 \<le> earliest p"
  shows "set ws \<subseteq> fst ` set (wards data) \<Longrightarrow>
    \<exists>r. first_fit_wards data alloc p ws = Inr r
       \<and> (r = None \<longleftrightarrow>
            list_all (\<lambda>w. list_all (\<lambda>d. \<not> fits data alloc p w d)
                       (py_range (earliest p) (min (latest p + 1) (num_days data)))) ws)"
proof (induction ws)
  case Nil
  then show ?case by simp
next
  case (Cons w ws)
  have w: "w \<in> fst ` set (wards data)" using Cons.prems by simp
  obtain wr where l: "py_lookup (wards data) w = Inr wr" and mem: "(w, wr) \<in> set (wards data)"
    using ward_record[OF assms(1) w] by blast
  obtain r where r: "first_fit_days data alloc w (bed_capacity wr) (los p)
              (py_range (earliest p) (min (latest p + 1) (num_days data))) = Inr r"
    "r = None \<longleftrightarrow> list_all (\<lambda>d. \<not> fits data alloc p w d)
              (py_range (earliest p) (min (latest p + 1) (num_days data)))"
    using first_fit_days_eq[OF assms(1) mem assms(2) window_days_nonneg[OF assms(3)]] by blast
  have ih: "\<exists>r. first_fit_wards data alloc p ws = Inr r
       \<and> (r = None \<longleftrightarrow>
            list_all (\<lambda>w. list_all (\<lambda>d. \<not> fits data alloc p w d)
                       (py_range (earliest p) (min (latest p + 1) (num_days data)))) ws)"
    using Cons by simp
  show ?case using l r ih by (cases r) auto
qed

lemma first_fit_none_iff:
  assumes "wf_data data" "keys_ok data alloc" "0 \<le> earliest p"
  shows "first_fit_wards data alloc p (compatible_wards_for_patient data p) = Inr None
     \<longleftrightarrow> no_placement data alloc p"
  using first_fit_wards_eq[OF assms compatible_wards_sub[of data p]]
  by (auto simp: no_placement_def)

lemma update_fresh: "k \<notin> fst ` set al \<Longrightarrow> AList.update k v al = al @ [(k, v)]"
  by (induction al) auto

lemma occupancy_update:
  assumes "pid \<notin> fst ` set alloc" "map_of (patients data) pid = Some p"
  shows "occupancy data (AList.update pid \<lparr>ward = w, day = d\<rparr> alloc) w wr dd
     = occupancy data alloc w wr dd + (if d \<le> dd \<and> dd < d + los p then 1 else 0)"
  using assms by (simp add: occupancy_def update_fresh stay_covers_def)

lemma score_trial_unfit:
  assumes "wf_data data" "keys_ok data alloc" "pid \<notin> fst ` set alloc"
    "map_of (patients data) pid = Some p" "0 \<le> d" "w \<in> fst ` set (wards data)"
    "\<not> fits data alloc p w d"
  shows "score_trial data alloc pid w d l1 l2 = Inr Infinity"
proof -
  obtain wr where m: "map_of (wards data) w = Some wr" and mem: "(w, wr) \<in> set (wards data)"
    using ward_record[OF assms(1,6)] by blast
  from assms(7) obtain dd where dd: "dd \<in> set (py_range d (min (d + los p) (num_days data)))"
    and full: "\<not> occupancy data alloc w wr dd < bed_capacity wr"
    by (auto simp: fits_def m list_all_iff)
  have r: "d \<le> dd" "dd < d + los p" "dd < num_days data" using dd by (auto simp: set_py_range)
  let ?trial = "AList.update pid \<lparr>ward = w, day = d\<rparr> alloc"
  have pk: "pid \<in> fst ` set (patients data)"
    using map_of_SomeD[OF assms(4)] by force
  have tk: "keys_ok data ?trial" using assms(2) pk by (simp add: keys_update)
  have occ: "occupancy data ?trial w wr dd = occupancy data alloc w wr dd + 1"
    using occupancy_update[OF assms(3,4)] r by simp
  have mem2: "dd \<in> set (py_range 0 (num_days data))" using r assms(5) by (auto simp: set_py_range)
  have "\<not> list_all (\<lambda>(wname, w). list_all (\<lambda>d. occupancy data ?trial wname w d \<le> bed_capacity w)
                (py_range 0 (num_days data))) (wards data)"
  proof
    assume "list_all (\<lambda>(wname, w). list_all (\<lambda>d. occupancy data ?trial wname w d \<le> bed_capacity w)
                (py_range 0 (num_days data))) (wards data)"
    then have "occupancy data ?trial w wr dd \<le> bed_capacity wr"
      using mem mem2 by (fastforce simp: list_all_iff)
    then show False using occ full by simp
  qed
  then have "feasible_after_change_beds data alloc (Some (pid, w, d)) = Inr False"
    using feasible_wards_eq[OF wf_carry_ok[OF assms(1)] tk, of "wards data"]
    by (simp add: feasible_after_change_beds_def)
  then show ?thesis by (simp add: score_trial_def)
qed

lemma fallback_days_unfit:
  assumes "wf_data data" "keys_ok data alloc" "pid \<notin> fst ` set alloc"
    "map_of (patients data) pid = Some p" "w \<in> fst ` set (wards data)"
  shows "\<forall>d\<in>set ds. 0 \<le> d \<and> \<not> fits data alloc p w d \<Longrightarrow>
    fallback_days data alloc pid w ds (Infinity, None) = Inr (Infinity, None)"
proof (induction ds)
  case Nil
  then show ?case by simp
next
  case (Cons d ds)
  have "score_trial data alloc pid w d (1 / 2) (1 / 2) = Inr Infinity"
    using score_trial_unfit[OF assms(1-4) _ assms(5)] Cons.prems by simp
  then show ?case using Cons by simp
qed

lemma fallback_wards_unfit:
  assumes "wf_data data" "keys_ok data alloc" "pid \<notin> fst ` set alloc"
    "map_of (patients data) pid = Some p" "0 \<le> earliest p"
  shows "set ws \<subseteq> fst ` set (wards data) \<Longrightarrow>
    list_all (\<lambda>w. list_all (\<lambda>d. \<not> fits data alloc p w d)
                (py_range (earliest p) (min (latest p + 1) (num_days data)))) ws \<Longrightarrow>
    fallback_wards data alloc pid p ws (Infinity, None) = Inr (Infinity, None)"
proof (induction ws)
  case Nil
  then show ?case by simp
next
  case (Cons w ws)
  have w: "w \<in> fst ` set (wards data)" using Cons.prems(1) by simp
  have "\<forall>d\<in>set (py_range (earliest p) (min (latest p + 1) (num_days data))).
           0 \<le> d \<and> \<not> fits data alloc p w d"
    using Cons.prems(2) window_days_nonneg[OF assms(5), of data] by (auto simp: list_all_iff)
  then have "fallback_days data alloc pid w
              (py_range (earliest p) (min (latest p + 1) (num_days data))) (Infinity, None)
      = Inr (Infinity, None)"
    using fallback_days_unfit[OF assms(1-4) w] by blast
  then show ?case using Cons by simp
qed

lemma unplaceable_iff:
  assumes "wf_data data" "keys_ok data alloc" "pid \<notin> fst ` set alloc"
    "map_of (patients data) pid = Some p" "0 \<le> earliest p"
  shows "unplaceable data alloc (pid, p) wd
     \<longleftrightarrow> no_placement data alloc p
         \<and> (\<exists>alloc2 wd2.
               repair_wards data p (compatible_wards_for_patient data p) alloc wd
                 = Inr (alloc2, wd2)
               \<and> no_placement data alloc2 p)"
proof -
  let ?ws = "compatible_wards_for_patient data p"
  note sub = compatible_wards_sub[of data p]
  obtain alloc2 wd2 where r: "repair_wards data p ?ws alloc wd = Inr (alloc2, wd2)"
    and e2: "fst ` set alloc2 = fst ` set alloc"
    using repair_wards_total[OF assms(1,5,2) sub] by blast
  have k2: "keys_ok data alloc2" and f2: "pid \<notin> fst ` set alloc2"
    using e2 assms(2,3) by simp_all
  have a: "first_fit_wards data alloc p ?ws = Inr None \<longleftrightarrow> no_placement data alloc p"
    by (rule first_fit_none_iff[OF assms(1,2,5)])
  have b: "first_fit_wards data alloc2 p ?ws = Inr None \<longleftrightarrow> no_placement data alloc2 p"
    by (rule first_fit_none_iff[OF assms(1) k2 assms(5)])
  have c: "fallback_wards data alloc2 pid p ?ws (Infinity, None) = Inr (Infinity, None)"
    if "no_placement data alloc2 p"
    using fallback_wards_unfit[OF assms(1) k2 f2 assms(4,5) sub] that
    by (simp add: no_placement_def)
  show ?thesis using a b c r by (auto simp: unplaceable_def Let_def)
qed

lemma place_patient_total:
  assumes "wf_data data" "keys_ok data alloc" "pid \<in> fst ` set (patients data)" "0 \<le> earliest p"
  shows "(\<exists>alloc' wd'. place_patient data alloc (pid, p) wd = Inr (alloc', wd')
            \<and> fst ` set alloc' = insert pid (fst ` set alloc))
       \<or> place_patient data alloc (pid, p) wd = Inl (RuntimeError pid)"
proof -
  let ?ws = "compatible_wards_for_patient data p"
  note sub = compatible_wards_sub[of data p]
  obtain r1 where r1: "first_fit_wards data alloc p ?ws = Inr r1"
    using first_fit_wards_total[OF assms(1,2,4) sub] by blast
  obtain alloc2 wd2 where r2: "repair_wards data p ?ws alloc wd = Inr (alloc2, wd2)"
    and e2: "fst ` set alloc2 = fst ` set alloc"
    using repair_wards_total[OF assms(1,4,2) sub] by blast
  have k2: "keys_ok data alloc2" using e2 assms(2) by simp
  obtain r3 where r3: "first_fit_wards data alloc2 p ?ws = Inr r3"
    using first_fit_wards_total[OF assms(1) k2 assms(4) sub] by blast
  obtain sc bw where r4: "fallback_wards data alloc2 pid p ?ws (Infinity, None) = Inr (sc, bw)"
    using fallback_wards_total[OF assms(1) k2 assms(3)] by (metis surj_pair)
  show ?thesis
    using r1 r2 r3 r4 e2
    by (cases r1; cases r3; cases bw)
      (auto simp: place_patient_def Let_def keys_update split: prod.splits)
qed

lemma greedy_loop_inv:
  assumes "wf_data data" "windows_nonneg data"
  shows "keys_ok data alloc \<Longrightarrow> set entries \<subseteq> set (patients data) \<Longrightarrow>
     (\<exists>alloc' wd'. greedy_loop data entries alloc wd = Inr (alloc', wd')
         \<and> fst ` set alloc' = fst ` set alloc \<union> fst ` set entries)
     \<or> (\<exists>x. greedy_loop data entries alloc wd = Inl (RuntimeError x))"
proof (induction entries arbitrary: alloc wd)
  case Nil
  then show ?case by simp
next
  case (Cons entry rest)
  obtain pid p where e: "entry = (pid, p)" by (cases entry)
  have mem: "(pid, p) \<in> set (patients data)" using Cons.prems(2) e by simp
  then have pp: "pid \<in> fst ` set (patients data)" by force
  have ep: "0 \<le> earliest p" using assms(2) mem by (auto simp: windows_nonneg_def list_all_iff)
  have rs: "set rest \<subseteq> set (patients data)" using Cons.prems(2) by simp
  from place_patient_total[OF assms(1) Cons.prems(1) pp ep, of wd]
  show ?case
  proof
    assume "\<exists>alloc' wd'. place_patient data alloc (pid, p) wd = Inr (alloc', wd')
            \<and> fst ` set alloc' = insert pid (fst ` set alloc)"
    then obtain alloc1 wd1 where p1: "place_patient data alloc (pid, p) wd = Inr (alloc1, wd1)"
      and e1: "fst ` set alloc1 = insert pid (fst ` set alloc)" by blast
    have k1: "keys_ok data alloc1" using e1 Cons.prems(1) pp by simp
    show ?thesis using Cons.IH[OF k1 rs, of wd1] p1 e e1 by auto
  next
    assume "place_patient data alloc (pid, p) wd = Inl (RuntimeError pid)"
    then show ?thesis using e by simp
  qed
qed

lemma patients_order_props:
  "set (patients_order data) = set (patients data)"
  "distinct (map fst (patients data)) \<Longrightarrow> distinct (map fst (patients_order data))"
  by (simp_all add: patients_order_def distinct_map)

lemma wf_saturated: "wf_data saturated_data" "windows_nonneg saturated_data"
  by (simp_all add: wf_data_def windows_nonneg_def saturated_data_def)

lemma tiny_greedy:
  "greedy_feasible_by_window_strict tiny_data demo_world
     = Inr [(''p1'', \<lparr>ward = ''W'', day = 0\<rparr>)]"
  by (simp add: search_defs tiny_data_fields Let_def min_def max_def place_patient_def
      patients_order_def greedy_feasible_by_window_strict_def demo_world_def
      cong: rbind_weak_cong prod.case_cong_weak sum.case_cong_weak option.case_cong_weak)

text \<open>
  Claim C2. On the literal instance (three patients of stay 1 and window [0, 0], one
  compatible ward with 2 beds, one day) \<open>greedy_feasible_by_window_strict\<close> raises the
  saturation error naming the third patient, whatever the random stream, and returns no
  allocation. On every well-formed instance whose windows start at day 0 or later, the
  construction raises nothing but the saturation error, and it raises it for a patient
  exactly when that patient comes up in the order with the patients before it placed,
  has no placement in the allocation built so far, and has no placement in the
  allocation the repair pass returns; the fallback scan then keeps nothing.
\<close>

theorem construction_raises_on_saturation:
  assumes "wf_data data" "windows_nonneg data"
  shows "greedy_feasible_by_window_strict saturated_data wd0 = Inl (RuntimeError ''p3'')
   \<and> (\<forall>e. greedy_feasible_by_window_strict data wd = Inl e \<longrightarrow> (\<exists>x. e = RuntimeError x))
   \<and> (greedy_feasible_by_window_strict data wd = Inl (RuntimeError x)
        \<longleftrightarrow> (\<exists>before p after alloc' wd' alloc2 wd2.
               patients_order data = before @ (x, p) # after
               \<and> greedy_loop data before [] wd = Inr (alloc', wd')
               \<and> no_placement data alloc' p
               \<and> repair_wards data p (compatible_wards_for_patient data p) alloc' wd'
                    = Inr (alloc2, wd2)
               \<and> no_placement data alloc2 p))"
proof (intro conjI)
  show "greedy_feasible_by_window_strict saturated_data wd0 = Inl (RuntimeError ''p3'')"
    by (rule saturated_raises)
next
  have sub: "set (patients_order data) \<subseteq> set (patients data)"
    by (simp add: patients_order_props)
  from greedy_loop_inv[OF assms _ sub, of "[]" wd]
  show "\<forall>e. greedy_feasible_by_window_strict data wd = Inl e \<longrightarrow> (\<exists>x. e = RuntimeError x)"
    by (auto simp: greedy_feasible_by_window_strict_def)
next
  have dist: "distinct (map fst (patients data))" using assms(1) by (simp add: wf_data_def)
  have step: "unplaceable data alloc' (x, p) wd'
     \<longleftrightarrow> no_placement data alloc' p
         \<and> (\<exists>alloc2 wd2.
               repair_wards data p (compatible_wards_for_patient data p) alloc' wd'
                 = Inr (alloc2, wd2)
               \<and> no_placement data alloc2 p)"
    if o: "patients_order data = before @ (x, p) # after"
      and g: "greedy_loop data before [] wd = Inr (alloc', wd')"
    for before p after alloc' wd'
  proof -
    have bs: "set before \<subseteq> set (patients data)"
      using patients_order_props(1)[of data] o by auto
    have mem: "(x, p) \<in> set (patients data)"
      using patients_order_props(1)[of data] o by auto
    have k: "fst ` set alloc' = fst ` set before"
      using greedy_loop_inv[OF assms _ bs, of "[]" wd] g by auto
    have ko: "keys_ok data alloc'" using k bs by auto
    have "distinct (map fst (before @ (x, p) # after))"
      using patients_order_props(2)[OF dist] o by simp
    then have fresh: "x \<notin> fst ` set alloc'" using k by auto
    have m: "map_of (patients data) x = Some p" using dist mem by simp
    have ep: "0 \<le> earliest p" using assms(2) mem by (auto simp: windows_nonneg_def list_all_iff)
    show ?thesis by (rule unplaceable_iff[OF assms(1) ko fresh m ep])
  qed
  show "greedy_feasible_by_window_strict data wd = Inl (RuntimeError x)
        \<longleftrightarrow> (\<exists>before p after alloc' wd' alloc2 wd2.
               patients_order data = before @ (x, p) # after
               \<and> greedy_loop data before [] wd = Inr (alloc', wd')
               \<and> no_placement data alloc' p
               \<and> repair_wards data p (compatible_wards_for_patient data p) alloc' wd'
                    = Inr (alloc2, wd2)
               \<and> no_placement data alloc2 p)"
    unfolding greedy_saturation_iff using step by blast
qed

theorem construction_raises_on_saturation_witness:
  "wf_data saturated_data \<and> windows_nonneg saturated_data
   \<and> greedy_feasible_by_window_strict saturated_data demo_world = Inl (RuntimeError ''p3'')
   \<and> (\<exists>before p after alloc' wd' alloc2 wd2.
               patients_order saturated_data = before @ (''p3'', p) # after
               \<and> greedy_loop saturated_data before [] demo_world = Inr (alloc', wd')
               \<and> no_placement saturated_data alloc' p
               \<and> repair_wards saturated_data p (compatible_wards_for_patient saturated_data p)
                    alloc' wd' = Inr (alloc2, wd2)
               \<and> no_placement saturated_data alloc2 p)"
proof -
  note t = construction_raises_on_saturation[OF wf_saturated, of demo_world demo_world "''p3''"]
  have a: "greedy_feasible_by_window_strict saturated_data demo_world = Inl (RuntimeError ''p3'')"
    using t by simp
  have b: "\<exists>before p after alloc' wd' alloc2 wd2.
               patients_order saturated_data = before @ (''p3'', p) # after
               \<and> greedy_loop saturated_data before [] demo_world = Inr (alloc', wd')
               \<and> no_placement saturated_data alloc' p
               \<and> repair_wards saturated_data p (compatible_wards_for_patient saturated_data p)
                    alloc' wd' = Inr (alloc2, wd2)
               \<and> no_placement saturated_data alloc2 p"
    using t a by blast
  show ?thesis using wf_saturated a b by blast
qed

end
